theory Spec2Isabelle
  imports Complex_Main "HOL-Library.AList"
begin

section \<open>Python values\<close>

text \<open>
  The records, rule conditions and metadata of \<^verbatim>\<open>policy_engine.py\<close> are
  \<^verbatim>\<open>Dict[str, Any]\<close> values read from JSON.  A dictionary is an association list in
  insertion order (the order \<^verbatim>\<open>str\<close>, \<^verbatim>\<open>items()\<close> and \<^verbatim>\<open>keys()\<close> use); lookups
  take the first binding of a key, and a well-formed dictionary has distinct keys.

  A Python \<^verbatim>\<open>str\<close> is a sequence of Unicode code points, here a list of natural
  numbers; \<open>lit\<close> turns a string literal of this theory into that form.

  A Python \<^verbatim>\<open>float\<close> is the rational number it denotes; infinities and NaN are not
  modelled.  The rate of the compliance dashboard is computed as the source computes
  it, with each operation rounded to the nearest double (\<open>to_double\<close> below).  The
  variance test of \<^verbatim>\<open>_detect_bias\<close> is computed on the exact numbers: its roundings,
  and the \<^verbatim>\<open>OverflowError\<close> of numbers too large for a double, are not modelled.
\<close>

type_synonym pystr = "nat list"

definition code :: "char \<Rightarrow> nat" where
  "code c = of_char c"

definition lit :: "string \<Rightarrow> pystr" where
  "lit s = map code s"

datatype pyval =
    PNone
  | PBool bool
  | PInt int
  | PFloat rat
  | PStr pystr
  | PList "pyval list"
  | PDict "(pystr \<times> pyval) list"

type_synonym pydict = "(pystr \<times> pyval) list"

text \<open>Exceptions are values.  The text of a \<^verbatim>\<open>ValueError\<close> is the one the source
  gives it; a \<^verbatim>\<open>TypeError\<close> or \<^verbatim>\<open>KeyError\<close> is raised by the interpreter, with
  the text CPython 3.11 gives it.\<close>

datatype py_error = TypeError pystr | ValueError pystr | KeyError pystr

fun error_text :: "py_error \<Rightarrow> pystr" where
  "error_text (TypeError m) = m"
| "error_text (ValueError m) = m"
| "error_text (KeyError m) = m"

text \<open>
  What the runtime supplies: the text of a float (\<^verbatim>\<open>repr\<close>), the clock
  (\<^verbatim>\<open>datetime.utcnow().isoformat()\<close>, by the number of readings made so far), and the
  Unicode database for the code points from 128 on: which of them are alphanumeric
  (\<^verbatim>\<open>str.isalnum\<close>), decimal digits (\<^verbatim>\<open>str.isdecimal\<close>), white space
  (\<^verbatim>\<open>str.isspace\<close>) and printable (\<^verbatim>\<open>str.isprintable\<close>), and \<^verbatim>\<open>str.lower\<close> on a
  text that is not all ASCII.  On ASCII these are fixed by the definitions below.
\<close>

record runtime =
  float_repr :: "rat \<Rightarrow> pystr"
  utcnow :: "nat \<Rightarrow> pystr"
  uni_alnum :: "nat \<Rightarrow> bool"
  uni_decimal :: "nat \<Rightarrow> bool"
  uni_space :: "nat \<Rightarrow> bool"
  uni_printable :: "nat \<Rightarrow> bool"
  uni_lower :: "pystr \<Rightarrow> pystr"

fun type_name :: "pyval \<Rightarrow> pystr" where
  "type_name PNone = lit ''NoneType''"
| "type_name (PBool _) = lit ''bool''"
| "type_name (PInt _) = lit ''int''"
| "type_name (PFloat _) = lit ''float''"
| "type_name (PStr _) = lit ''str''"
| "type_name (PList _) = lit ''list''"
| "type_name (PDict _) = lit ''dict''"

text \<open>A text between single quotes, as the interpreter's messages name a type.\<close>

definition quoted :: "pystr \<Rightarrow> pystr" where
  "quoted s = 39 # s @ [39]"

text \<open>Truth value testing (\<^verbatim>\<open>if x\<close>, \<^verbatim>\<open>not x\<close>).\<close>

fun truthy :: "pyval \<Rightarrow> bool" where
  "truthy PNone = False"
| "truthy (PBool b) = b"
| "truthy (PInt i) = (i \<noteq> 0)"
| "truthy (PFloat r) = (r \<noteq> 0)"
| "truthy (PStr s) = (s \<noteq> [])"
| "truthy (PList xs) = (xs \<noteq> [])"
| "truthy (PDict kvs) = (kvs \<noteq> [])"

text \<open>\<^verbatim>\<open>isinstance(v, (int, float))\<close>; \<^verbatim>\<open>bool\<close> is a subclass of \<^verbatim>\<open>int\<close>.\<close>

fun num_of :: "pyval \<Rightarrow> rat option" where
  "num_of (PBool b) = Some (if b then 1 else 0)"
| "num_of (PInt i) = Some (of_int i)"
| "num_of (PFloat r) = Some r"
| "num_of _ = None"

definition is_number :: "pyval \<Rightarrow> bool" where
  "is_number v = (num_of v \<noteq> None)"

text \<open>\<^verbatim>\<open>k in d\<close> and \<^verbatim>\<open>d.get(k, dflt)\<close> for a string key; \<^verbatim>\<open>d[k]\<close> for a key
  that is present is \<open>get_or\<close> with any default.\<close>

definition has_key :: "pydict \<Rightarrow> pystr \<Rightarrow> bool" where
  "has_key d k = (map_of d k \<noteq> None)"

definition get_or :: "pydict \<Rightarrow> pystr \<Rightarrow> pyval \<Rightarrow> pyval" where
  "get_or d k dflt = (case map_of d k of Some v \<Rightarrow> v | None \<Rightarrow> dflt)"

section \<open>Floats: rounding to the nearest double\<close>

text \<open>
  A double has a significand of 53 bits.  For a positive number \<open>x\<close>, \<open>expo x\<close> is
  the exponent \<open>e\<close> with \<open>2\<^sup>e \<le> x < 2\<^sup>e\<^sup>+\<^sup>1\<close>; the doubles of that binade are the
  multiples of \<open>2\<^sup>e\<^sup>-\<^sup>5\<^sup>2\<close>, and \<open>to_double x\<close> is the nearest of them, the one with
  the even significand when \<open>x\<close> lies halfway between two.  This is the rounding of
  Python's \<^verbatim>\<open>int / int\<close> (the quotient of the two integers, rounded once) and of
  \<^verbatim>\<open>float * float\<close>.  The range of the exponent of a double (-1022 to 1023) is not
  modelled: the numbers rounded here are quotients of two list lengths and
  their products with 100.
\<close>

definition pow2 :: "int \<Rightarrow> rat" where
  "pow2 e = 2 powi e"

function expo :: "rat \<Rightarrow> int" where
  "expo x = (if x \<le> 0 then 0
             else if 2 \<le> x then expo (x / 2) + 1
             else if x < 1 then expo (x * 2) - 1
             else 0)"
  by pat_completeness auto
termination
proof (relation "measure (\<lambda>x. 2 * nat \<lceil>1 / x\<rceil> + nat \<lfloor>x\<rfloor>)")
  fix x :: rat
  assume "\<not> x \<le> 0" and x: "2 \<le> x"
  have "0 < 1 / x" "1 / x \<le> 1" "0 < 1 / (x / 2)" "1 / (x / 2) \<le> 1"
    using x by (simp_all add: field_simps)
  then have "\<lceil>1 / x\<rceil> = 1" "\<lceil>1 / (x / 2)\<rceil> = 1"
    by (simp_all only: ceiling_eq_iff) simp_all
  moreover have "\<lfloor>x / 2\<rfloor> < \<lfloor>x\<rfloor>"
    using x by linarith
  moreover have "0 \<le> \<lfloor>x / 2\<rfloor>"
    using x by simp
  ultimately show "(x / 2, x) \<in> measure (\<lambda>x. 2 * nat \<lceil>1 / x\<rceil> + nat \<lfloor>x\<rfloor>)"
    using x by simp
next
  fix x :: rat
  assume pos: "\<not> x \<le> 0" and "\<not> 2 \<le> x" and x: "x < 1"
  have fl: "\<lfloor>x\<rfloor> = 0"
    using pos x by (simp add: floor_eq_iff)
  have "\<lfloor>x * 2\<rfloor> \<le> 1"
    using x by (simp add: floor_le_iff)
  then have f: "nat \<lfloor>x * 2\<rfloor> \<le> 1"
    by linarith
  have c: "\<lceil>1 / (x * 2)\<rceil> < \<lceil>1 / x\<rceil>"
  proof -
    have "1 < 1 / x"
      using pos x by (simp add: field_simps)
    then have two: "2 \<le> \<lceil>1 / x\<rceil>"
      by linarith
    have "1 / (x * 2) = (1 / x) / 2"
      by simp
    also have "\<dots> \<le> of_int \<lceil>1 / x\<rceil> / 2"
      by (simp add: divide_right_mono)
    finally have "\<lceil>1 / (x * 2)\<rceil> \<le> \<lceil>(of_int \<lceil>1 / x\<rceil> :: rat) / 2\<rceil>"
      by (rule ceiling_mono)
    also have "\<dots> < \<lceil>1 / x\<rceil>"
      using two by linarith
    finally show ?thesis .
  qed
  have "0 < \<lceil>1 / (x * 2)\<rceil>"
    using pos by simp
  with c have "nat \<lceil>1 / (x * 2)\<rceil> < nat \<lceil>1 / x\<rceil>"
    by linarith
  with f have "2 * nat \<lceil>1 / (x * 2)\<rceil> + nat \<lfloor>x * 2\<rfloor> < 2 * nat \<lceil>1 / x\<rceil> + nat \<lfloor>x\<rfloor>"
    by linarith
  then show "(x * 2, x) \<in> measure (\<lambda>x. 2 * nat \<lceil>1 / x\<rceil> + nat \<lfloor>x\<rfloor>)"
    by (simp only: in_measure)
qed simp

declare expo.simps [simp del]

text \<open>The integer nearest to \<open>y\<close>, the even one of two that are equally near.\<close>

definition round_even :: "rat \<Rightarrow> int" where
  "round_even y =
     (let f = \<lfloor>y\<rfloor>; d = y - of_int f
      in if d < 1 / 2 then f
         else if 1 / 2 < d then f + 1
         else if even f then f else f + 1)"

definition to_double :: "rat \<Rightarrow> rat" where
  "to_double x =
     (if x = 0 then 0
      else sgn x * of_int (round_even (\<bar>x\<bar> / pow2 (expo \<bar>x\<bar> - 52))) * pow2 (expo \<bar>x\<bar> - 52))"

text \<open>\<^verbatim>\<open>a / b\<close> for two integers, \<open>b\<close> not zero, and \<^verbatim>\<open>x * y\<close> for two floats.\<close>

definition int_truediv :: "int \<Rightarrow> int \<Rightarrow> rat" where
  "int_truediv a b = to_double (of_int a / of_int b)"

definition float_mul :: "rat \<Rightarrow> rat \<Rightarrow> rat" where
  "float_mul x y = to_double (x * y)"

section \<open>Text: \<^verbatim>\<open>str\<close>, \<^verbatim>\<open>repr\<close>, \<^verbatim>\<open>lower\<close>, \<^verbatim>\<open>in\<close>\<close>

definition digit_char :: "nat \<Rightarrow> nat" where
  "digit_char n = 48 + n"

fun digits :: "nat \<Rightarrow> pystr" where
  "digits n = (if n < 10 then [digit_char n] else digits (n div 10) @ [digit_char (n mod 10)])"

declare digits.simps [simp del]

definition int_repr :: "int \<Rightarrow> pystr" where
  "int_repr i = (if i < 0 then code CHR ''-'' # digits (nat (- i)) else digits (nat i))"

definition hex_char :: "nat \<Rightarrow> nat" where
  "hex_char n = (if n < 10 then 48 + n else 87 + n)"

text \<open>The last \<open>w\<close> hexadecimal digits of \<open>n\<close>.\<close>

fun hex_digits :: "nat \<Rightarrow> nat \<Rightarrow> pystr" where
  "hex_digits 0 n = []"
| "hex_digits (Suc w) n = hex_digits w (n div 16) @ [hex_char (n mod 16)]"

definition printable :: "runtime \<Rightarrow> nat \<Rightarrow> bool" where
  "printable rt c = (if c < 128 then 32 \<le> c \<and> c < 127 else uni_printable rt c)"

text \<open>One code point of a text, as \<^verbatim>\<open>repr\<close> writes it inside quotes \<open>q\<close>; 92 is the
  backslash.\<close>

definition escape :: "runtime \<Rightarrow> nat \<Rightarrow> nat \<Rightarrow> pystr" where
  "escape rt q c =
     (if c = q \<or> c = 92 then [92, c]
      else if c = 9 then [92, code CHR ''t'']
      else if c = 10 then [92, code CHR ''n'']
      else if c = 13 then [92, code CHR ''r'']
      else if printable rt c then [c]
      else if c < 256 then [92, code CHR ''x''] @ hex_digits 2 c
      else if c < 65536 then [92, code CHR ''u''] @ hex_digits 4 c
      else [92, code CHR ''U''] @ hex_digits 8 c)"

text \<open>\<^verbatim>\<open>repr\<close> of a string: single quotes (39), unless the text holds a single quote
  and no double quote (34).\<close>

definition str_repr :: "runtime \<Rightarrow> pystr \<Rightarrow> pystr" where
  "str_repr rt s =
     (let q = (if 39 \<in> set s \<and> 34 \<notin> set s then 34 else 39)
      in q # concat (map (escape rt q) s) @ [q])"

fun join :: "pystr \<Rightarrow> pystr list \<Rightarrow> pystr" where
  "join sep [] = []"
| "join sep [x] = x"
| "join sep (x # y # ys) = x @ sep @ join sep (y # ys)"

fun py_repr :: "runtime \<Rightarrow> pyval \<Rightarrow> pystr" where
  "py_repr rt PNone = lit ''None''"
| "py_repr rt (PBool b) = (if b then lit ''True'' else lit ''False'')"
| "py_repr rt (PInt i) = int_repr i"
| "py_repr rt (PFloat r) = float_repr rt r"
| "py_repr rt (PStr s) = str_repr rt s"
| "py_repr rt (PList xs) = lit ''['' @ join (lit '', '') (map (py_repr rt) xs) @ lit '']''"
| "py_repr rt (PDict kvs) =
     lit ''{'' @ join (lit '', '') (map (\<lambda>kv. str_repr rt (fst kv) @ lit '': '' @ py_repr rt (snd kv)) kvs)
       @ lit ''}''"

text \<open>\<^verbatim>\<open>str(v)\<close>, also what an f-string writes for \<^verbatim>\<open>{v}\<close>.\<close>

fun py_str :: "runtime \<Rightarrow> pyval \<Rightarrow> pystr" where
  "py_str rt (PStr s) = s"
| "py_str rt v = py_repr rt v"

text \<open>\<^verbatim>\<open>s.lower()\<close>: on an ASCII text the capital letters (65 to 90) move to the small
  ones; any other text is lowered by the Unicode database.\<close>

definition lower_char :: "nat \<Rightarrow> nat" where
  "lower_char c = (if 65 \<le> c \<and> c \<le> 90 then c + 32 else c)"

definition lower :: "runtime \<Rightarrow> pystr \<Rightarrow> pystr" where
  "lower rt s = (if list_all (\<lambda>c. c < 128) s then map lower_char s else uni_lower rt s)"

fun starts_with :: "pystr \<Rightarrow> pystr \<Rightarrow> bool" where
  "starts_with [] s = True"
| "starts_with (x # xs) [] = False"
| "starts_with (x # xs) (y # ys) = (x = y \<and> starts_with xs ys)"

text \<open>\<^verbatim>\<open>sub in s\<close> for two strings.\<close>

fun contains :: "pystr \<Rightarrow> pystr \<Rightarrow> bool" where
  "contains sub [] = (sub = [])"
| "contains sub (c # cs) = (starts_with sub (c # cs) \<or> contains sub cs)"

section \<open>Regular expressions: \<^verbatim>\<open>re.search\<close> and \<^verbatim>\<open>re.sub\<close>\<close>

text \<open>
  The four patterns of \<^verbatim>\<open>_detect_pii\<close> and \<^verbatim>\<open>_anonymize_data\<close> use character sets,
  literal characters, greedy bounded repetition of a set, concatenation, alternation
  and the word boundary \<^verbatim>\<open>\b\<close>.  The matcher below is the backtracking matcher of
  \<^verbatim>\<open>re\<close> on that fragment: at a position (the character before it, or none at the
  start of the text, and the text from it on) it returns every way the expression can
  match, as the text consumed, in the order backtracking tries them.  The first is the
  match Python reports.  For a concatenation, \<open>seq_rest\<close> continues each match of the
  first part with the second part.
\<close>

text \<open>
  The classes \<^verbatim>\<open>\d\<close>, \<^verbatim>\<open>\s\<close> and \<^verbatim>\<open>\w\<close> of a pattern on \<^verbatim>\<open>str\<close>: on ASCII the digits, the
  white space (tab to carriage return, the separators 28 to 31, space) and the letters,
  digits and underscore (95); from 128 on the decimal digits, the white space and the
  alphanumeric code points of the Unicode database.
\<close>

definition is_digit :: "runtime \<Rightarrow> nat \<Rightarrow> bool" where
  "is_digit rt c = (if c < 128 then 48 \<le> c \<and> c \<le> 57 else uni_decimal rt c)"

definition is_space :: "runtime \<Rightarrow> nat \<Rightarrow> bool" where
  "is_space rt c =
     (if c < 128 then (9 \<le> c \<and> c \<le> 13) \<or> (28 \<le> c \<and> c \<le> 32) else uni_space rt c)"

definition is_word :: "runtime \<Rightarrow> nat \<Rightarrow> bool" where
  "is_word rt c =
     (if c < 128
      then (48 \<le> c \<and> c \<le> 57) \<or> (65 \<le> c \<and> c \<le> 90) \<or> (97 \<le> c \<and> c \<le> 122) \<or> c = 95
      else uni_alnum rt c)"

datatype citem = Ch nat | Rng nat nat | Digit | Space

fun in_item :: "runtime \<Rightarrow> citem \<Rightarrow> nat \<Rightarrow> bool" where
  "in_item rt (Ch x) c = (c = x)"
| "in_item rt (Rng a b) c = (a \<le> c \<and> c \<le> b)"
| "in_item rt Digit c = is_digit rt c"
| "in_item rt Space c = is_space rt c"

definition in_class :: "runtime \<Rightarrow> citem list \<Rightarrow> nat \<Rightarrow> bool" where
  "in_class rt cl c = list_ex (\<lambda>i. in_item rt i c) cl"

datatype regex =
    WordB
  | Chr nat
  | Cls "citem list"
  | Rep "citem list" nat "nat option"
  | Seq regex regex
  | Alt regex regex

fun word_at :: "runtime \<Rightarrow> nat option \<Rightarrow> bool" where
  "word_at rt None = False"
| "word_at rt (Some c) = is_word rt c"

fun hd_opt :: "pystr \<Rightarrow> nat option" where
  "hd_opt [] = None"
| "hd_opt (c # cs) = Some c"

text \<open>The character before the position reached after consuming \<open>m\<close>.\<close>

definition last_opt :: "nat option \<Rightarrow> pystr \<Rightarrow> nat option" where
  "last_opt p m = (if m = [] then p else Some (last m))"

fun rmatch :: "runtime \<Rightarrow> regex \<Rightarrow> nat option \<Rightarrow> pystr \<Rightarrow> pystr list"
  and seq_rest :: "runtime \<Rightarrow> regex \<Rightarrow> nat option \<Rightarrow> pystr \<Rightarrow> pystr list \<Rightarrow> pystr list" where
  "rmatch rt WordB p s = (if word_at rt p \<noteq> word_at rt (hd_opt s) then [[]] else [])"
| "rmatch rt (Chr x) p [] = []"
| "rmatch rt (Chr x) p (c # cs) = (if c = x then [[c]] else [])"
| "rmatch rt (Cls cl) p [] = []"
| "rmatch rt (Cls cl) p (c # cs) = (if in_class rt cl c then [[c]] else [])"
| "rmatch rt (Rep cl lo hi) p s =
     map (\<lambda>j. take j s)
       (rev [lo..<Suc (case hi of None \<Rightarrow> length (takeWhile (in_class rt cl) s)
                          | Some h \<Rightarrow> min h (length (takeWhile (in_class rt cl) s)))])"
| "rmatch rt (Seq a b) p s = seq_rest rt b p s (rmatch rt a p s)"
| "rmatch rt (Alt a b) p s = rmatch rt a p s @ rmatch rt b p s"
| "seq_rest rt b p s [] = []"
| "seq_rest rt b p s (m # ms) =
     map (\<lambda>m'. m @ m') (rmatch rt b (last_opt p m) (drop (length m) s)) @ seq_rest rt b p s ms"

text \<open>\<^verbatim>\<open>re.search(r, text)\<close> as a truth value: some position has a match.\<close>

fun rsearch :: "runtime \<Rightarrow> regex \<Rightarrow> nat option \<Rightarrow> pystr \<Rightarrow> bool" where
  "rsearch rt r p [] = (rmatch rt r p [] \<noteq> [])"
| "rsearch rt r p (c # cs) = (rmatch rt r p (c # cs) \<noteq> [] \<or> rsearch rt r (Some c) cs)"

text \<open>
  \<^verbatim>\<open>re.sub(r, repl, text)\<close> for a replacement without group references: scan from
  the left, replace the first match found at the earliest position, go on behind it.
  After an empty match the scan stays where it is and accepts only a non-empty match
  there (flag \<open>adv\<close>), as Python does from 3.7 on.
\<close>

definition candidates :: "runtime \<Rightarrow> regex \<Rightarrow> bool \<Rightarrow> nat option \<Rightarrow> pystr \<Rightarrow> pystr list" where
  "candidates rt r adv p s =
     (if adv then filter (\<lambda>m. m \<noteq> []) (rmatch rt r p s) else rmatch rt r p s)"

function rsub :: "runtime \<Rightarrow> regex \<Rightarrow> pystr \<Rightarrow> bool \<Rightarrow> nat option \<Rightarrow> pystr \<Rightarrow> pystr" where
  "rsub rt r repl adv p [] = (case candidates rt r adv p [] of [] \<Rightarrow> [] | m # ms \<Rightarrow> repl)"
| "rsub rt r repl adv p (c # cs) =
     (case candidates rt r adv p (c # cs) of
        [] \<Rightarrow> c # rsub rt r repl False (Some c) cs
      | m # ms \<Rightarrow>
          if m = [] then repl @ rsub rt r repl True p (c # cs)
          else repl @ rsub rt r repl False (Some (last m)) (drop (length m) (c # cs)))"
  by pat_completeness auto
termination
proof (relation "measure (\<lambda>(rt, r, repl, adv, p, s). 2 * length s + (if adv then 0 else 1))")
  fix rt :: "runtime" and r :: regex and repl :: pystr and adv p c cs m ms
  assume "candidates rt r adv p (c # cs) = m # ms" and "m = []"
  then have "[] \<in> set (candidates rt r adv p (c # cs))"
    by simp
  then have "\<not> adv"
    by (auto simp: candidates_def split: if_splits)
  then show "((rt, r, repl, True, p, c # cs), (rt, r, repl, adv, p, c # cs))
      \<in> measure (\<lambda>(rt, r, repl, adv, p, s). 2 * length s + (if adv then 0 else 1))"
    by simp
next
  fix rt :: "runtime" and r :: regex and repl :: pystr and adv p c cs m ms
  assume "m \<noteq> []"
  then obtain k where "length m = Suc k"
    by (cases m) auto
  then show "((rt, r, repl, False, Some (last m), drop (length m) (c # cs)), (rt, r, repl, adv, p, c # cs))
      \<in> measure (\<lambda>(rt, r, repl, adv, p, s). 2 * length s + (if adv then 0 else 1))"
    by simp
qed auto

declare rsub.simps [simp del]

definition re_search :: "runtime \<Rightarrow> regex \<Rightarrow> pystr \<Rightarrow> bool" where
  "re_search rt r s = rsearch rt r None s"

definition re_sub :: "runtime \<Rightarrow> regex \<Rightarrow> pystr \<Rightarrow> pystr \<Rightarrow> pystr" where
  "re_sub rt r repl s = rsub rt r repl False None s"

fun seqs :: "regex \<Rightarrow> regex list \<Rightarrow> regex" where
  "seqs r [] = r"
| "seqs r (x # xs) = Seq r (seqs x xs)"

definition digits_n :: "nat \<Rightarrow> regex" where
  "digits_n n = Rep [Digit] n (Some n)"

text \<open>A literal character and a range of characters of a pattern, by their code points.\<close>

definition chr :: "char \<Rightarrow> regex" where
  "chr c = Chr (code c)"

definition ch :: "char \<Rightarrow> citem" where
  "ch c = Ch (code c)"

definition rng :: "char \<Rightarrow> char \<Rightarrow> citem" where
  "rng a b = Rng (code a) (code b)"

text \<open>\<^verbatim>\<open>\b[A-Za-z0-9._%+-]+@[A-Za-z0-9.-]+\.[A-Z|a-z]{2,}\b\<close>\<close>

definition email_re :: regex where
  "email_re = seqs WordB
     [Rep [rng CHR ''A'' CHR ''Z'', rng CHR ''a'' CHR ''z'', rng CHR ''0'' CHR ''9'',
           ch CHR ''.'', ch CHR ''_'', ch CHR ''%'', ch CHR ''+'', ch CHR ''-''] 1 None,
      chr CHR ''@'',
      Rep [rng CHR ''A'' CHR ''Z'', rng CHR ''a'' CHR ''z'', rng CHR ''0'' CHR ''9'',
           ch CHR ''.'', ch CHR ''-''] 1 None,
      chr CHR ''.'',
      Rep [rng CHR ''A'' CHR ''Z'', ch CHR ''|'', rng CHR ''a'' CHR ''z''] 2 None,
      WordB]"

text \<open>\<^verbatim>\<open>\b\d{3}-\d{3}-\d{4}\b|\b\(\d{3}\)\s*\d{3}-\d{4}\b\<close>\<close>

definition phone_re :: regex where
  "phone_re = Alt
     (seqs WordB [digits_n 3, chr CHR ''-'', digits_n 3, chr CHR ''-'', digits_n 4, WordB])
     (seqs WordB [chr CHR ''('', digits_n 3, chr CHR '')'', Rep [Space] 0 None,
                  digits_n 3, chr CHR ''-'', digits_n 4, WordB])"

text \<open>\<^verbatim>\<open>\b\d{3}-\d{2}-\d{4}\b\<close>\<close>

definition ssn_re :: regex where
  "ssn_re = seqs WordB [digits_n 3, chr CHR ''-'', digits_n 2, chr CHR ''-'', digits_n 4, WordB]"

text \<open>\<^verbatim>\<open>\b\d{4}[\s-]?\d{4}[\s-]?\d{4}[\s-]?\d{4}\b\<close>\<close>

definition card_re :: regex where
  "card_re = seqs WordB
     [digits_n 4, Rep [Space, ch CHR ''-''] 0 (Some 1),
      digits_n 4, Rep [Space, ch CHR ''-''] 0 (Some 1),
      digits_n 4, Rep [Space, ch CHR ''-''] 0 (Some 1),
      digits_n 4, WordB]"

section \<open>Operators on values\<close>

text \<open>\<^verbatim>\<open>for x in v\<close>: the elements of a list, the characters of a string, the keys of
  a dictionary.\<close>

fun iter_values :: "pyval \<Rightarrow> py_error + pyval list" where
  "iter_values (PList xs) = Inr xs"
| "iter_values (PStr s) = Inr (map (\<lambda>c. PStr [c]) s)"
| "iter_values (PDict kvs) = Inr (map (\<lambda>kv. PStr (fst kv)) kvs)"
| "iter_values v = Inl (TypeError (quoted (type_name v) @ lit '' object is not iterable''))"

text \<open>\<^verbatim>\<open>k in v\<close> for a string \<open>k\<close>: an element of a list, a key of a dictionary, a
  substring of a string.\<close>

fun str_in :: "pystr \<Rightarrow> pyval \<Rightarrow> py_error + bool" where
  "str_in k (PList xs) = Inr (PStr k \<in> set xs)"
| "str_in k (PDict kvs) = Inr (has_key kvs k)"
| "str_in k (PStr s) = Inr (contains k s)"
| "str_in k v =
     Inl (TypeError (lit ''argument of type '' @ quoted (type_name v) @ lit '' is not iterable''))"

text \<open>\<^verbatim>\<open>v in data\<close> for a dictionary with string keys: the key is hashed first.\<close>

fun in_dict :: "pyval \<Rightarrow> pydict \<Rightarrow> py_error + bool" where
  "in_dict (PStr k) d = Inr (has_key d k)"
| "in_dict (PList xs) d = Inl (TypeError (lit ''unhashable type: '' @ quoted (lit ''list'')))"
| "in_dict (PDict kvs) d = Inl (TypeError (lit ''unhashable type: '' @ quoted (lit ''dict'')))"
| "in_dict v d = Inr False"

text \<open>\<^verbatim>\<open>v[k]\<close> for a string \<open>k\<close>; the text of a \<^verbatim>\<open>KeyError\<close> is the \<^verbatim>\<open>repr\<close> of the
  key.\<close>

fun subscript :: "runtime \<Rightarrow> pyval \<Rightarrow> pystr \<Rightarrow> py_error + pyval" where
  "subscript rt (PDict kvs) k =
     (case map_of kvs k of Some v \<Rightarrow> Inr v | None \<Rightarrow> Inl (KeyError (str_repr rt k)))"
| "subscript rt (PList xs) k =
     Inl (TypeError (lit ''list indices must be integers or slices, not str''))"
| "subscript rt (PStr s) k =
     Inl (TypeError (lit ''string indices must be integers, not '' @ quoted (lit ''str'')))"
| "subscript rt v k = Inl (TypeError (quoted (type_name v) @ lit '' object is not subscriptable''))"

fun str_lt :: "pystr \<Rightarrow> pystr \<Rightarrow> bool" where
  "str_lt [] [] = False"
| "str_lt [] (y # ys) = True"
| "str_lt (x # xs) [] = False"
| "str_lt (x # xs) (y # ys) = (x < y \<or> (x = y \<and> str_lt xs ys))"

text \<open>\<^verbatim>\<open>a == b\<close>: numbers by value, dictionaries as mappings.\<close>

fun py_eq :: "pyval \<Rightarrow> pyval \<Rightarrow> bool" where
  "py_eq PNone b = (b = PNone)"
| "py_eq (PStr s) b = (b = PStr s)"
| "py_eq (PBool x) b = (case num_of b of Some r \<Rightarrow> r = (if x then 1 else 0) | None \<Rightarrow> False)"
| "py_eq (PInt i) b = (case num_of b of Some r \<Rightarrow> r = of_int i | None \<Rightarrow> False)"
| "py_eq (PFloat x) b = (case num_of b of Some r \<Rightarrow> r = x | None \<Rightarrow> False)"
| "py_eq (PList xs) b = (case b of PList ys \<Rightarrow> list_all2 py_eq xs ys | _ \<Rightarrow> False)"
| "py_eq (PDict kvs) b =
     (case b of
        PDict kvs' \<Rightarrow>
          length kvs = length kvs' \<and>
          list_all (\<lambda>kv. case map_of kvs' (fst kv) of
                            Some v' \<Rightarrow> py_eq (snd kv) v'
                          | None \<Rightarrow> False) kvs
      | _ \<Rightarrow> False)"

text \<open>The text of the \<^verbatim>\<open>TypeError\<close> of a comparison \<open>op\<close> between two values.\<close>

definition not_supported :: "pystr \<Rightarrow> pyval \<Rightarrow> pyval \<Rightarrow> py_error" where
  "not_supported op a b =
     TypeError (quoted op @ lit '' not supported between instances of '' @ quoted (type_name a)
                @ lit '' and '' @ quoted (type_name b))"

text \<open>\<^verbatim>\<open>a >= b\<close>: numbers, strings (by code point) and lists (at the first pair of
  unequal elements) are ordered; any other pair raises.\<close>

fun py_ge :: "pyval \<Rightarrow> pyval \<Rightarrow> py_error + bool"
  and list_ge :: "pyval list \<Rightarrow> pyval list \<Rightarrow> py_error + bool" where
  "py_ge (PStr s) b =
     (case b of PStr t \<Rightarrow> Inr (\<not> str_lt s t)
      | _ \<Rightarrow> Inl (not_supported (lit ''>='') (PStr s) b))"
| "py_ge (PList xs) b =
     (case b of PList ys \<Rightarrow> list_ge xs ys
      | _ \<Rightarrow> Inl (not_supported (lit ''>='') (PList xs) b))"
| "py_ge a b =
     (case (num_of a, num_of b) of
        (Some x, Some y) \<Rightarrow> Inr (y \<le> x)
      | _ \<Rightarrow> Inl (not_supported (lit ''>='') a b))"
| "list_ge [] ys = Inr (ys = [])"
| "list_ge (x # xs) [] = Inr True"
| "list_ge (x # xs) (y # ys) = (if py_eq x y then list_ge xs ys else py_ge x y)"

section \<open>Policies, rules and results\<close>

datatype PolicyAction =
  ALLOW | DENY | FLAG | ANONYMIZE | ESCALATE | REQUIRE | ENCRYPT | LOG | NOTIFY | VALIDATE
  | RESTRICT | DELETE

fun action_value :: "PolicyAction \<Rightarrow> pystr" where
  "action_value ALLOW = lit ''allow''"
| "action_value DENY = lit ''deny''"
| "action_value FLAG = lit ''flag''"
| "action_value ANONYMIZE = lit ''anonymize''"
| "action_value ESCALATE = lit ''escalate''"
| "action_value REQUIRE = lit ''require''"
| "action_value ENCRYPT = lit ''encrypt''"
| "action_value LOG = lit ''log''"
| "action_value NOTIFY = lit ''notify''"
| "action_value VALIDATE = lit ''validate''"
| "action_value RESTRICT = lit ''restrict''"
| "action_value DELETE = lit ''delete''"

datatype EnforcementMode = REAL_TIME | PRE_PROCESSING | POST_PROCESSING | SCHEDULED | PRE_DECISION

text \<open>The fields of the source's data classes, each with a prefix for its class
  (\<open>rule_\<close>, \<open>pol_\<close>, \<open>res_\<close>), since a field name is a constant here and the
  source uses the same names for parameters.\<close>

record PolicyRule =
  rule_id :: pystr
  rule_type :: pystr
  rule_action :: PolicyAction
  rule_conditions :: pydict
  rule_enforcement :: EnforcementMode

record Policy =
  pol_policy_id :: pystr
  pol_name :: pystr
  pol_version :: pystr
  pol_description :: pystr
  pol_rules :: "PolicyRule list"
  pol_compliance_frameworks :: "pystr list"
  pol_audit_required :: bool
  pol_created_by :: pystr
  pol_created_date :: pystr

record EnforcementResult =
  res_policy_id :: pystr
  res_rule_id :: pystr
  res_action_taken :: PolicyAction
  res_success :: bool
  res_message :: pystr
  res_timestamp :: pystr
  res_metadata :: pydict

text \<open>The dictionary an action returns; \<^verbatim>\<open>deny\<close>, \<^verbatim>\<open>allow\<close> and the fall-through
  case return no \<^verbatim>\<open>metadata\<close> entry.\<close>

record action_result =
  ar_success :: bool
  ar_message :: pystr
  ar_metadata :: "pydict option"

text \<open>An entry of the audit log file, as \<^verbatim>\<open>_log_audit_event\<close> writes it.\<close>

record audit_event =
  ev_timestamp :: pystr
  ev_policy_id :: pystr
  ev_rule_id :: pystr
  ev_action_taken :: pystr
  ev_success :: bool
  ev_message :: pystr
  ev_metadata :: pydict

text \<open>
  The file \<^verbatim>\<open>compliance/audit_log.json\<close>: it does not exist, or it holds a list of
  events (what \<^verbatim>\<open>_log_audit_event\<close> wrote), or it exists and cannot be read
  (\<^verbatim>\<open>open\<close> for reading or \<^verbatim>\<open>json.load\<close> raises an exception other than
  \<^verbatim>\<open>FileNotFoundError\<close>, with the text given).  A file that holds JSON of another
  shape, which the engine never writes, is not modelled.
\<close>

datatype audit_store = Missing | Holds "audit_event list" | Unreadable pystr

text \<open>
  The engine: the policy dictionary, the audit log file, whether the file can be
  written (\<^verbatim>\<open>open(path, 'w')\<close> succeeds; it fails when the directory \<^verbatim>\<open>compliance\<close>
  does not exist or the file may not be written), and the number of clock readings made.
\<close>

record engine =
  policies :: "(pystr \<times> Policy) list"
  audit_file :: audit_store
  audit_writable :: bool
  clock_reads :: nat

definition now :: "runtime \<Rightarrow> engine \<Rightarrow> pystr \<times> engine" where
  "now rt s = (utcnow rt (clock_reads s), s\<lparr>clock_reads := Suc (clock_reads s)\<rparr>)"

section \<open>The condition evaluator\<close>

text \<open>The four searches of \<^verbatim>\<open>_detect_pii\<close> on the text of the record.\<close>

definition pii_kinds :: "runtime \<Rightarrow> pystr \<Rightarrow> pystr list" where
  "pii_kinds rt text_data =
     (if re_search rt email_re text_data then [lit ''email''] else [])
     @ (if re_search rt phone_re text_data then [lit ''phone''] else [])
     @ (if re_search rt ssn_re text_data then [lit ''ssn''] else [])
     @ (if re_search rt card_re text_data then [lit ''credit_card''] else [])"

definition detect_pii :: "runtime \<Rightarrow> pydict \<Rightarrow> pystr list" where
  "detect_pii rt data = (let text_data = py_str rt (PDict data) in pii_kinds rt text_data)"

definition phi_indicators :: "pystr list" where
  "phi_indicators = [lit ''medical_record'', lit ''patient_id'', lit ''diagnosis'', lit ''treatment'',
                     lit ''prescription'', lit ''doctor'', lit ''hospital'', lit ''insurance'']"

definition detect_phi :: "runtime \<Rightarrow> pydict \<Rightarrow> bool" where
  "detect_phi rt data =
     (let text_data = lower rt (py_str rt (PDict data))
      in list_ex (\<lambda>indicator. contains indicator text_data) phi_indicators)"

text \<open>\<^verbatim>\<open>sum(attr_values)\<close>, from the sum \<open>acc\<close> of the elements before: the first
  element that is no number raises; the sum so far is a \<^verbatim>\<open>float\<close> (\<open>fl\<close>) once a
  float was added, an \<^verbatim>\<open>int\<close> before.\<close>

fun sum_numbers :: "bool \<Rightarrow> rat \<Rightarrow> pyval list \<Rightarrow> py_error + rat" where
  "sum_numbers fl acc [] = Inr acc"
| "sum_numbers fl acc (v # vs) =
     (case num_of v of
        None \<Rightarrow> Inl (TypeError (lit ''unsupported operand type(s) for +: ''
                            @ quoted (if fl then lit ''float'' else lit ''int'')
                            @ lit '' and '' @ quoted (type_name v)))
      | Some x \<Rightarrow> sum_numbers (fl \<or> (case v of PFloat r \<Rightarrow> True | _ \<Rightarrow> False)) (acc + x) vs)"

fun bias_loop :: "pydict \<Rightarrow> pyval \<Rightarrow> pyval list \<Rightarrow> py_error + bool" where
  "bias_loop data bias_threshold [] = Inr False"
| "bias_loop data bias_threshold (attr # rest) =
     (case in_dict attr data of
        Inl e \<Rightarrow> Inl e
      | Inr False \<Rightarrow> bias_loop data bias_threshold rest
      | Inr True \<Rightarrow>
          (case get_or data (case attr of PStr k \<Rightarrow> k | _ \<Rightarrow> []) (PList []) of
             PList attr_values \<Rightarrow>
               if 1 < length attr_values then
                 (case sum_numbers False 0 attr_values of
                    Inl e \<Rightarrow> Inl e
                  | Inr total_sum \<Rightarrow>
                      (let xs = map (\<lambda>v. case num_of v of Some x \<Rightarrow> x | None \<Rightarrow> 0) attr_values;
                           mean_val = total_sum / of_nat (length attr_values);
                           variance = sum_list (map (\<lambda>x. (x - mean_val) ^ 2) xs)
                                      / of_nat (length attr_values)
                       in case num_of bias_threshold of
                            None \<Rightarrow> Inl (not_supported (lit ''>'') (PFloat variance) bias_threshold)
                          | Some t \<Rightarrow> if t < variance then Inr True
                                     else bias_loop data bias_threshold rest))
               else bias_loop data bias_threshold rest
           | _ \<Rightarrow> bias_loop data bias_threshold rest))"

definition detect_bias :: "pydict \<Rightarrow> pydict \<Rightarrow> py_error + bool" where
  "detect_bias data conditions =
     (let protected_attrs = get_or conditions (lit ''protected_attributes'') (PList []);
          bias_threshold = get_or conditions (lit ''bias_threshold'') (PFloat (1 / 10))
      in case iter_values protected_attrs of
           Inl e \<Rightarrow> Inl e
         | Inr attrs \<Rightarrow> bias_loop data bias_threshold attrs)"

text \<open>\<^verbatim>\<open>_validate_consent\<close>; the source reads \<^verbatim>\<open>consent_expiry\<close> and does not use it.\<close>

definition validate_consent :: "pydict \<Rightarrow> pydict \<Rightarrow> bool" where
  "validate_consent data conditions =
     (if truthy (get_or conditions (lit ''consent_required'') (PBool False)) then
        (let consent_timestamp = get_or data (lit ''consent_timestamp'') PNone
         in if \<not> truthy consent_timestamp then False else True)
      else True)"

text \<open>\<^verbatim>\<open>k in thresholds and value >= thresholds[k]\<close>\<close>

definition meets :: "runtime \<Rightarrow> pyval \<Rightarrow> pystr \<Rightarrow> pyval \<Rightarrow> py_error + bool" where
  "meets rt thresholds k v =
     (case str_in k thresholds of
        Inl e \<Rightarrow> Inl e
      | Inr False \<Rightarrow> Inr False
      | Inr True \<Rightarrow> (case subscript rt thresholds k of Inl e \<Rightarrow> Inl e | Inr t \<Rightarrow> py_ge v t))"

fun amount_loop :: "runtime \<Rightarrow> pyval \<Rightarrow> (pystr \<times> pyval) list \<Rightarrow> py_error + bool" where
  "amount_loop rt thresholds [] = Inr False"
| "amount_loop rt thresholds ((key, v) # rest) =
     (if contains (lit ''amount'') (lower rt key) \<and> is_number v then
        (case meets rt thresholds (lit ''wire'') v of
           Inl e \<Rightarrow> Inl e
         | Inr True \<Rightarrow> Inr True
         | Inr False \<Rightarrow>
             (case meets rt thresholds (lit ''cash'') v of
                Inl e \<Rightarrow> Inl e
              | Inr True \<Rightarrow> Inr True
              | Inr False \<Rightarrow> amount_loop rt thresholds rest))
      else amount_loop rt thresholds rest)"

definition check_financial_thresholds :: "runtime \<Rightarrow> pydict \<Rightarrow> pydict \<Rightarrow> py_error + bool" where
  "check_financial_thresholds rt data conditions =
     (let thresholds = get_or conditions (lit ''threshold_amounts'') (PDict []);
          cash = (if has_key data (lit ''cash_amount'')
                  then meets rt thresholds (lit ''cash'') (get_or data (lit ''cash_amount'') PNone)
                  else Inr False)
      in case cash of
           Inl e \<Rightarrow> Inl e
         | Inr True \<Rightarrow> Inr True
         | Inr False \<Rightarrow>
             (case (if has_key data (lit ''wire_amount'')
                    then meets rt thresholds (lit ''wire'') (get_or data (lit ''wire_amount'') PNone)
                    else Inr False) of
                Inl e \<Rightarrow> Inl e
              | Inr True \<Rightarrow> Inr True
              | Inr False \<Rightarrow> amount_loop rt thresholds data))"

text \<open>The dispatch of \<^verbatim>\<open>_evaluate_conditions\<close>, in the order of the source.  The caller's
  context is accepted and not used.\<close>

definition evaluate_conditions ::
  "runtime \<Rightarrow> pydict \<Rightarrow> pydict \<Rightarrow> pydict option \<Rightarrow> py_error + bool" where
  "evaluate_conditions rt conditions data user_context =
     (if has_key conditions (lit ''data_types'') then
        (let detected_types = detect_pii rt data
         in case iter_values (get_or conditions (lit ''data_types'') PNone) of
              Inl e \<Rightarrow> Inl e
            | Inr dts \<Rightarrow> Inr (list_ex (\<lambda>dt. dt \<in> set (map PStr detected_types)) dts))
      else if has_key conditions (lit ''protected_attributes'') then detect_bias data conditions
      else if has_key conditions (lit ''consent_required'') then Inr (validate_consent data conditions)
      else if has_key conditions (lit ''threshold_amounts'') then
        check_financial_thresholds rt data conditions
      else
        (case str_in (lit ''medical_record'') (get_or conditions (lit ''data_types'') (PList [])) of
           Inl e \<Rightarrow> Inl e
         | Inr True \<Rightarrow> Inr (detect_phi rt data)
         | Inr False \<Rightarrow> Inr True))"

section \<open>The action executor\<close>

text \<open>The four substitutions of \<^verbatim>\<open>_anonymize_data\<close> on one string value, in the order
  of the source.\<close>

definition anonymize_value :: "runtime \<Rightarrow> pystr \<Rightarrow> pystr" where
  "anonymize_value rt v =
     re_sub rt card_re (lit ''[CARD]'')
       (re_sub rt ssn_re (lit ''[SSN]'')
          (re_sub rt phone_re (lit ''[PHONE]'')
             (re_sub rt email_re (lit ''[EMAIL]'') v)))"

text \<open>
  The loop of \<^verbatim>\<open>_anonymize_data\<close> over the items of the copy: a string value is
  replaced under its key, any other value is left.  \<open>anonymized_copy\<close> is the final
  value of the local variable \<^verbatim>\<open>anonymized_data\<close>; the function does not return it.
\<close>

fun anonymize_loop :: "runtime \<Rightarrow> pydict \<Rightarrow> (pystr \<times> pyval) list \<Rightarrow> pydict" where
  "anonymize_loop rt anonymized_data [] = anonymized_data"
| "anonymize_loop rt anonymized_data ((key, v) # rest) =
     (case v of
        PStr t \<Rightarrow>
          anonymize_loop rt (AList.update key (PStr (anonymize_value rt t)) anonymized_data) rest
      | _ \<Rightarrow> anonymize_loop rt anonymized_data rest)"

definition anonymized_copy :: "runtime \<Rightarrow> pydict \<Rightarrow> pydict" where
  "anonymized_copy rt data = anonymize_loop rt data data"

definition anonymize_data :: "runtime \<Rightarrow> pydict \<Rightarrow> pydict \<Rightarrow> action_result" where
  "anonymize_data rt data conditions =
     (let anonymized_data = anonymized_copy rt data
      in \<lparr>ar_success = True,
          ar_message = lit ''Data anonymized successfully'',
          ar_metadata = Some [(lit ''original_keys'', PList (map (\<lambda>kv. PStr (fst kv)) data)),
                              (lit ''anonymized'', PBool True)]\<rparr>)"

text \<open>
  The same function on a store of dictionary objects, an object's address being its
  index: \<^verbatim>\<open>data\<close> is the object at \<open>a\<close>, \<^verbatim>\<open>data.copy()\<close> allocates a new object
  behind the last one, the loop assigns into the new object (it visits each item of
  the copy once, and an item is assigned only when it is visited), and the keys
  reported are read from \<^verbatim>\<open>data\<close> when the loop is over.
\<close>

fun anonymize_items :: "runtime \<Rightarrow> pydict list \<Rightarrow> nat \<Rightarrow> (pystr \<times> pyval) list \<Rightarrow> pydict list" where
  "anonymize_items rt h a' [] = h"
| "anonymize_items rt h a' ((key, v) # rest) =
     (case v of
        PStr t \<Rightarrow>
          anonymize_items rt (h[a' := AList.update key (PStr (anonymize_value rt t)) (h ! a')]) a' rest
      | _ \<Rightarrow> anonymize_items rt h a' rest)"

definition anonymize_data_store ::
  "runtime \<Rightarrow> pydict list \<Rightarrow> nat \<Rightarrow> pydict \<Rightarrow> action_result \<times> pydict list" where
  "anonymize_data_store rt h a conditions =
     (let a' = length h;
          h1 = h @ [h ! a];
          h2 = anonymize_items rt h1 a' (h1 ! a')
      in (\<lparr>ar_success = True,
           ar_message = lit ''Data anonymized successfully'',
           ar_metadata = Some [(lit ''original_keys'', PList (map (\<lambda>kv. PStr (fst kv)) (h2 ! a))),
                               (lit ''anonymized'', PBool True)]\<rparr>,
          h2))"

definition encrypt_data :: "runtime \<Rightarrow> pydict \<Rightarrow> pydict \<Rightarrow> action_result" where
  "encrypt_data rt data conditions =
     (let encryption_standard = get_or conditions (lit ''encryption_standard'') (PStr (lit ''AES_256''))
      in \<lparr>ar_success = True,
          ar_message = lit ''Data encrypted using '' @ py_str rt encryption_standard,
          ar_metadata = Some [(lit ''encrypted'', PBool True), (lit ''algorithm'', encryption_standard)]\<rparr>)"

definition flag_data :: "pydict \<Rightarrow> pydict \<Rightarrow> action_result" where
  "flag_data data conditions =
     \<lparr>ar_success = True,
      ar_message = lit ''Data flagged for manual review'',
      ar_metadata = Some [(lit ''flagged'', PBool True), (lit ''review_required'', PBool True)]\<rparr>"

definition escalate_decision :: "pydict \<Rightarrow> pydict \<Rightarrow> action_result" where
  "escalate_decision data conditions =
     \<lparr>ar_success = True,
      ar_message = lit ''Decision escalated to human oversight'',
      ar_metadata = Some [(lit ''escalated'', PBool True), (lit ''requires_approval'', PBool True)]\<rparr>"

definition send_notification :: "runtime \<Rightarrow> pydict \<Rightarrow> pydict \<Rightarrow> action_result" where
  "send_notification rt data conditions =
     (let notification_type = get_or conditions (lit ''notification_timeframe'') (PStr (lit ''immediate''))
      in \<lparr>ar_success = True,
          ar_message = lit ''Notification sent ('' @ py_str rt notification_type @ lit '')'',
          ar_metadata = Some [(lit ''notification_sent'', PBool True), (lit ''type'', notification_type)]\<rparr>)"

definition log_activity :: "pydict \<Rightarrow> pydict \<Rightarrow> action_result" where
  "log_activity data conditions =
     \<lparr>ar_success = True,
      ar_message = lit ''Activity logged for audit'',
      ar_metadata = Some [(lit ''logged'', PBool True), (lit ''audit_trail'', PBool True)]\<rparr>"

definition restrict_access :: "pydict \<Rightarrow> pydict \<Rightarrow> action_result" where
  "restrict_access data conditions =
     \<lparr>ar_success = True,
      ar_message = lit ''Access restricted based on policy'',
      ar_metadata = Some [(lit ''access_restricted'', PBool True), (lit ''minimum_necessary'', PBool True)]\<rparr>"

text \<open>The loop of \<^verbatim>\<open>_validate_data\<close> over the required fields: the messages for the
  fields missing from the record, or the error of a field that cannot be a key.\<close>

fun missing_fields :: "runtime \<Rightarrow> pydict \<Rightarrow> pyval list \<Rightarrow> py_error + pystr list" where
  "missing_fields rt data [] = Inr []"
| "missing_fields rt data (field # rest) =
     (case in_dict field data of
        Inl e \<Rightarrow> Inl e
      | Inr present \<Rightarrow>
          (case missing_fields rt data rest of
             Inl e \<Rightarrow> Inl e
           | Inr msgs \<Rightarrow>
               Inr (if present then msgs
                    else (lit ''Missing required field: '' @ py_str rt field) # msgs)))"

definition validate_data :: "runtime \<Rightarrow> pydict \<Rightarrow> pydict \<Rightarrow> py_error + action_result" where
  "validate_data rt data conditions =
     (case (if has_key conditions (lit ''required_fields'')
            then (case iter_values (get_or conditions (lit ''required_fields'') PNone) of
                    Inl e \<Rightarrow> Inl e
                  | Inr required \<Rightarrow> missing_fields rt data required)
            else Inr []) of
        Inl e \<Rightarrow> Inl e
      | Inr validation_messages \<Rightarrow>
          (let validation_passed = (validation_messages = [])
           in Inr \<lparr>ar_success = validation_passed,
                   ar_message = lit ''Data validation completed'',
                   ar_metadata = Some [(lit ''validation_passed'', PBool validation_passed),
                                       (lit ''messages'', PList (map PStr validation_messages))]\<rparr>))"

definition delete_data :: "pydict \<Rightarrow> pydict \<Rightarrow> action_result" where
  "delete_data data conditions =
     \<lparr>ar_success = True,
      ar_message = lit ''Data deleted according to retention policy'',
      ar_metadata = Some [(lit ''deleted'', PBool True), (lit ''retention_policy_applied'', PBool True)]\<rparr>"

fun execute_action ::
  "runtime \<Rightarrow> PolicyAction \<Rightarrow> pydict \<Rightarrow> pydict \<Rightarrow> py_error + action_result" where
  "execute_action rt ANONYMIZE data conditions = Inr (anonymize_data rt data conditions)"
| "execute_action rt ENCRYPT data conditions = Inr (encrypt_data rt data conditions)"
| "execute_action rt FLAG data conditions = Inr (flag_data data conditions)"
| "execute_action rt ESCALATE data conditions = Inr (escalate_decision data conditions)"
| "execute_action rt NOTIFY data conditions = Inr (send_notification rt data conditions)"
| "execute_action rt LOG data conditions = Inr (log_activity data conditions)"
| "execute_action rt RESTRICT data conditions = Inr (restrict_access data conditions)"
| "execute_action rt VALIDATE data conditions = validate_data rt data conditions"
| "execute_action rt DELETE data conditions = Inr (delete_data data conditions)"
| "execute_action rt DENY data conditions =
     Inr \<lparr>ar_success = True, ar_message = lit ''Access denied by policy'', ar_metadata = None\<rparr>"
| "execute_action rt ALLOW data conditions =
     Inr \<lparr>ar_success = True, ar_message = lit ''Access allowed by policy'', ar_metadata = None\<rparr>"
| "execute_action rt REQUIRE data conditions =
     Inr \<lparr>ar_success = True,
          ar_message = lit ''Action '' @ action_value REQUIRE @ lit '' executed'',
          ar_metadata = None\<rparr>"

section \<open>The engine\<close>

text \<open>\<^verbatim>\<open>_enforce_rule\<close>: the clock is read first; an exception of the evaluator or the
  executor leaves the function with the clock read.\<close>

definition enforce_rule ::
  "runtime \<Rightarrow> engine \<Rightarrow> PolicyRule \<Rightarrow> pydict \<Rightarrow> pydict option
     \<Rightarrow> (py_error + EnforcementResult) \<times> engine" where
  "enforce_rule rt s rule data user_context =
     (let (ts, s1) = now rt s
      in case evaluate_conditions rt (rule_conditions rule) data user_context of
           Inl e \<Rightarrow> (Inl e, s1)
         | Inr True \<Rightarrow>
             (case execute_action rt (rule_action rule) data (rule_conditions rule) of
                Inl e \<Rightarrow> (Inl e, s1)
              | Inr action_result \<Rightarrow>
                  (Inr \<lparr>res_policy_id = [],
                        res_rule_id = rule_id rule,
                        res_action_taken = rule_action rule,
                        res_success = ar_success action_result,
                        res_message = ar_message action_result,
                        res_timestamp = ts,
                        res_metadata = (case ar_metadata action_result of
                                          Some m \<Rightarrow> m | None \<Rightarrow> [])\<rparr>, s1))
         | Inr False \<Rightarrow>
             (Inr \<lparr>res_policy_id = [],
                   res_rule_id = rule_id rule,
                   res_action_taken = ALLOW,
                   res_success = True,
                   res_message = lit ''Rule conditions not met, allowing by default'',
                   res_timestamp = ts,
                   res_metadata = []\<rparr>, s1))"

text \<open>The entry that \<^verbatim>\<open>_log_audit_event\<close> builds from a result.\<close>

definition audit_event_of :: "pystr \<Rightarrow> EnforcementResult \<Rightarrow> audit_event" where
  "audit_event_of policy_id result =
     \<lparr>ev_timestamp = res_timestamp result,
      ev_policy_id = policy_id,
      ev_rule_id = res_rule_id result,
      ev_action_taken = action_value (res_action_taken result),
      ev_success = res_success result,
      ev_message = res_message result,
      ev_metadata = res_metadata result\<rparr>"

text \<open>
  \<^verbatim>\<open>_log_audit_event\<close>: a file that does not exist reads as the empty log
  (\<^verbatim>\<open>except FileNotFoundError: pass\<close>); the log with the new event at its end is written
  back.  When the read raises another exception, or the file cannot be opened for
  writing, the exception is caught by the outer handler, which logs a message: the
  file is as it was and the event is lost.  (\<^verbatim>\<open>json.dump\<close> itself does not fail on
  an event: its values are JSON values with string keys.)
\<close>

definition log_audit_event :: "engine \<Rightarrow> pystr \<Rightarrow> EnforcementResult \<Rightarrow> engine" where
  "log_audit_event s policy_id result =
     (let audit_event = audit_event_of policy_id result
      in case (case audit_file s of
                 Missing \<Rightarrow> Inr []
               | Holds l \<Rightarrow> Inr l
               | Unreadable e \<Rightarrow> Inl e) of
           Inl e \<Rightarrow> s
         | Inr audit_log \<Rightarrow>
             if audit_writable s then s\<lparr>audit_file := Holds (audit_log @ [audit_event])\<rparr>
             else s)"

text \<open>The loop of \<^verbatim>\<open>enforce_policy\<close> over the rules of the policy found: the results in
  rule order, and the engine after the last rule.\<close>

fun enforce_rules ::
  "runtime \<Rightarrow> pystr \<Rightarrow> bool \<Rightarrow> pydict \<Rightarrow> pydict option \<Rightarrow> PolicyRule list \<Rightarrow> engine
     \<Rightarrow> EnforcementResult list \<times> engine" where
  "enforce_rules rt policy_id audit data user_context [] s = ([], s)"
| "enforce_rules rt policy_id audit data user_context (rule # rest) s =
     (case enforce_rule rt s rule data user_context of
        (Inr r, s1) \<Rightarrow>
          (let result = r\<lparr>res_policy_id := policy_id\<rparr>;
               s2 = (if audit then log_audit_event s1 policy_id result else s1);
               (results, s3) = enforce_rules rt policy_id audit data user_context rest s2
           in (result # results, s3))
      | (Inl e, s1) \<Rightarrow>
          (let (ts, s2) = now rt s1;
               result = \<lparr>res_policy_id = policy_id,
                          res_rule_id = rule_id rule,
                          res_action_taken = DENY,
                          res_success = False,
                          res_message = lit ''Rule enforcement failed: '' @ error_text e,
                          res_timestamp = ts,
                          res_metadata = []\<rparr>;
               (results, s3) = enforce_rules rt policy_id audit data user_context rest s2
           in (result # results, s3)))"

definition enforce_policy ::
  "runtime \<Rightarrow> engine \<Rightarrow> pystr \<Rightarrow> pydict \<Rightarrow> pydict option
     \<Rightarrow> (py_error + EnforcementResult list) \<times> engine" where
  "enforce_policy rt s policy_id data user_context =
     (case map_of (policies s) policy_id of
        None \<Rightarrow> (Inl (ValueError (lit ''Policy '' @ policy_id @ lit '' not found'')), s)
      | Some policy \<Rightarrow>
          (let (results, s') = enforce_rules rt policy_id (pol_audit_required policy)
                                 data user_context (pol_rules policy) s
           in (Inr results, s')))"

section \<open>Reports from the audit log\<close>

text \<open>
  What \<^verbatim>\<open>open(path, 'r')\<close> raises for a file that does not exist, as text, and the
  opening lines of both reports: the log read from the file, or the text of the
  exception raised.
\<close>

definition file_not_found :: pystr where
  "file_not_found =
     lit ''[Errno 2] No such file or directory: '' @ quoted (lit ''compliance/audit_log.json'')"

definition load_audit_log :: "engine \<Rightarrow> pystr + audit_event list" where
  "load_audit_log s =
     (case audit_file s of
        Missing \<Rightarrow> Inl file_not_found
      | Unreadable e \<Rightarrow> Inl e
      | Holds audit_log \<Rightarrow> Inr audit_log)"

datatype policy_status =
    PolicyStatus (st_policy_id: pystr) (st_policy_name: pystr) (st_total_enforcements: nat)
      (st_successful_enforcements: nat) (st_failed_enforcements: nat)
      (st_last_enforcement: "pystr option") (st_compliance_frameworks: "pystr list")
  | PolicyStatusError pystr pystr pystr

definition get_policy_status :: "engine \<Rightarrow> pystr \<Rightarrow> py_error + policy_status" where
  "get_policy_status s policy_id =
     (case map_of (policies s) policy_id of
        None \<Rightarrow> Inl (ValueError (lit ''Policy '' @ policy_id @ lit '' not found''))
      | Some policy \<Rightarrow>
          (case load_audit_log s of
             Inl e \<Rightarrow> Inr (PolicyStatusError policy_id (pol_name policy) e)
           | Inr audit_log \<Rightarrow>
               (let policy_events = filter (\<lambda>event. ev_policy_id event = policy_id) audit_log
                in Inr (PolicyStatus policy_id (pol_name policy)
                          (length policy_events)
                          (length (filter ev_success policy_events))
                          (length (filter (\<lambda>e. \<not> ev_success e) policy_events))
                          (if policy_events \<noteq> [] then Some (ev_timestamp (last policy_events))
                           else None)
                          (pol_compliance_frameworks policy)))))"

record policy_stat =
  stat_total :: nat
  stat_success :: nat
  stat_failed :: nat

text \<open>The summary of the dashboard; \<open>compliance_rate\<close> is the float the source
  computes, or the integer 0.\<close>

record summary =
  total_policies :: nat
  total_enforcements :: nat
  successful_enforcements :: nat
  failed_enforcements :: nat
  compliance_rate :: rat

datatype dashboard =
    Dashboard (dash_summary: summary) (policy_statistics: "(pystr \<times> policy_stat) list")
      (action_statistics: "(pystr \<times> nat) list") (recent_events: "audit_event list")
  | DashboardError pystr

text \<open>One round of the loop that groups the events by policy, and of the loop that
  counts them by action; a new key goes to the end of the dictionary.\<close>

definition count_policy :: "(pystr \<times> policy_stat) list \<Rightarrow> audit_event \<Rightarrow> (pystr \<times> policy_stat) list" where
  "count_policy policy_stats event =
     (let st = (case map_of policy_stats (ev_policy_id event) of
                  None \<Rightarrow> \<lparr>stat_total = 0, stat_success = 0, stat_failed = 0\<rparr>
                | Some st \<Rightarrow> st);
          st1 = st\<lparr>stat_total := stat_total st + 1\<rparr>;
          st2 = (if ev_success event then st1\<lparr>stat_success := stat_success st1 + 1\<rparr>
                 else st1\<lparr>stat_failed := stat_failed st1 + 1\<rparr>)
      in AList.update (ev_policy_id event) st2 policy_stats)"

definition count_action :: "(pystr \<times> nat) list \<Rightarrow> audit_event \<Rightarrow> (pystr \<times> nat) list" where
  "count_action action_stats event =
     (let n = (case map_of action_stats (ev_action_taken event) of None \<Rightarrow> 0 | Some n \<Rightarrow> n)
      in AList.update (ev_action_taken event) (n + 1) action_stats)"

definition get_compliance_dashboard :: "engine \<Rightarrow> dashboard" where
  "get_compliance_dashboard s =
     (case load_audit_log s of
        Inl e \<Rightarrow> DashboardError e
      | Inr audit_log \<Rightarrow>
          (let total_events = length audit_log;
               successful_events = length (filter ev_success audit_log);
               failed_events = total_events - successful_events;
               policy_stats = foldl count_policy [] audit_log;
               action_stats = foldl count_action [] audit_log
           in Dashboard
                \<lparr>total_policies = length (policies s),
                 total_enforcements = total_events,
                 successful_enforcements = successful_events,
                 failed_enforcements = failed_events,
                 compliance_rate =
                   (if 0 < total_events
                    then float_mul (int_truediv (int successful_events) (int total_events)) 100
                    else 0)\<rparr>
                policy_stats action_stats
                (drop (length audit_log - 10) audit_log)))"

section \<open>The shape of a pattern\<close>

text \<open>What a pattern can consume, how little, and whether it starts and ends at a word
  boundary.\<close>

fun rx_chars :: "runtime \<Rightarrow> regex \<Rightarrow> nat \<Rightarrow> bool" where
  "rx_chars rt WordB c = False"
| "rx_chars rt (Chr x) c = (c = x)"
| "rx_chars rt (Cls cl) c = in_class rt cl c"
| "rx_chars rt (Rep cl lo hi) c = in_class rt cl c"
| "rx_chars rt (Seq a b) c = (rx_chars rt a c \<or> rx_chars rt b c)"
| "rx_chars rt (Alt a b) c = (rx_chars rt a c \<or> rx_chars rt b c)"

fun rx_min :: "regex \<Rightarrow> nat" where
  "rx_min WordB = 0"
| "rx_min (Chr x) = 1"
| "rx_min (Cls cl) = 1"
| "rx_min (Rep cl lo hi) = lo"
| "rx_min (Seq a b) = rx_min a + rx_min b"
| "rx_min (Alt a b) = min (rx_min a) (rx_min b)"

fun starts_wb :: "regex \<Rightarrow> bool" where
  "starts_wb WordB = True"
| "starts_wb (Seq a b) = starts_wb a"
| "starts_wb (Alt a b) = (starts_wb a \<and> starts_wb b)"
| "starts_wb r = False"

fun ends_wb :: "regex \<Rightarrow> bool" where
  "ends_wb WordB = True"
| "ends_wb (Seq a b) = ends_wb b"
| "ends_wb (Alt a b) = (ends_wb a \<and> ends_wb b)"
| "ends_wb r = False"

text \<open>
  A pattern is word-bounded when it starts and ends with \<^verbatim>\<open>\b\<close>, matches no empty
  text, and cannot consume a square bracket (the code points 91 and 93).  \<open>covers r q\<close>
  says of a text that wherever \<open>q\<close> matches, \<open>r\<close> matches too.
\<close>

definition word_bounded :: "runtime \<Rightarrow> regex \<Rightarrow> bool" where
  "word_bounded rt r =
     (starts_wb r \<and> ends_wb r \<and> 0 < rx_min r \<and> \<not> rx_chars rt r 91 \<and> \<not> rx_chars rt r 93)"

fun covers :: "runtime \<Rightarrow> regex \<Rightarrow> regex \<Rightarrow> nat option \<Rightarrow> pystr \<Rightarrow> bool" where
  "covers rt r q p [] = True"
| "covers rt r q p (c # cs) =
     ((rmatch rt q p (c # cs) = [] \<or> rmatch rt r p (c # cs) \<noteq> []) \<and> covers rt r q (Some c) cs)"

section \<open>Sample inputs\<close>

text \<open>
  Sample inputs, on which the theorems below are instantiated.  The runtime has a clock
  that stands still and the Unicode database of Python 3.11 for the code points up to
  255 (Latin-1); it takes every code point from 256 on as an unprintable symbol that
  \<^verbatim>\<open>lower\<close> leaves as it is.  Then some rules, a policy, an engine with no audit log
  file yet, and an audit event.
\<close>

definition sample_runtime :: runtime where
  "sample_runtime =
     \<lparr>float_repr = (\<lambda>r. lit ''0.0''),
      utcnow = (\<lambda>n. lit ''2024-01-15T10:00:00''),
      uni_alnum = (\<lambda>c. c = 170 \<or> c = 178 \<or> c = 179 \<or> c = 181 \<or> c = 185 \<or> c = 186
                        \<or> (188 \<le> c \<and> c \<le> 190) \<or> (192 \<le> c \<and> c \<le> 214)
                        \<or> (216 \<le> c \<and> c \<le> 246) \<or> (248 \<le> c \<and> c \<le> 255)),
      uni_decimal = (\<lambda>c. False),
      uni_space = (\<lambda>c. c = 133 \<or> c = 160),
      uni_printable = (\<lambda>c. (161 \<le> c \<and> c \<le> 172) \<or> (174 \<le> c \<and> c \<le> 255)),
      uni_lower = map (\<lambda>c. if (65 \<le> c \<and> c \<le> 90) \<or> (192 \<le> c \<and> c \<le> 214)
                                  \<or> (216 \<le> c \<and> c \<le> 222)
                             then c + 32 else c)\<rparr>"

definition consent_rule :: PolicyRule where
  "consent_rule = \<lparr>rule_id = lit ''consent_validation'', rule_type = lit ''consent'',
     rule_action = REQUIRE, rule_conditions = [(lit ''consent_required'', PBool True)],
     rule_enforcement = PRE_PROCESSING\<rparr>"

definition catch_all_rule :: PolicyRule where
  "catch_all_rule = \<lparr>rule_id = lit ''audit_access'', rule_type = lit ''logging'',
     rule_action = LOG, rule_conditions = [],
     rule_enforcement = REAL_TIME\<rparr>"

definition broken_rule :: PolicyRule where
  "broken_rule = \<lparr>rule_id = lit ''pii_detection'', rule_type = lit ''data_protection'',
     rule_action = ANONYMIZE, rule_conditions = [(lit ''data_types'', PNone)],
     rule_enforcement = REAL_TIME\<rparr>"

definition sample_policy :: "PolicyRule list \<Rightarrow> bool \<Rightarrow> Policy" where
  "sample_policy rs audit = \<lparr>pol_policy_id = lit ''data_privacy_001'', pol_name = lit ''Data Privacy'',
     pol_version = lit ''1.0'', pol_description = [], pol_rules = rs,
     pol_compliance_frameworks = [lit ''GDPR''], pol_audit_required = audit,
     pol_created_by = lit ''admin'', pol_created_date = lit ''2024-01-01T00:00:00''\<rparr>"

definition sample_engine :: "PolicyRule list \<Rightarrow> bool \<Rightarrow> engine" where
  "sample_engine rs audit = \<lparr>policies = [(lit ''data_privacy_001'', sample_policy rs audit)],
     audit_file = Missing, audit_writable = True, clock_reads = 0\<rparr>"

definition optional_consent_rule :: PolicyRule where
  "optional_consent_rule = \<lparr>rule_id = lit ''consent_validation'', rule_type = lit ''consent'',
     rule_action = LOG, rule_conditions = [(lit ''consent_required'', PBool False)],
     rule_enforcement = PRE_PROCESSING\<rparr>"

definition sample_event :: "bool \<Rightarrow> audit_event" where
  "sample_event ok = \<lparr>ev_timestamp = lit ''2024-01-15T10:00:00'', ev_policy_id = lit ''data_privacy_001'',
     ev_rule_id = lit ''pii_detection'', ev_action_taken = lit ''anonymize'', ev_success = ok,
     ev_message = lit ''Data anonymized successfully'', ev_metadata = []\<rparr>"

section \<open>Literals\<close>

lemma lit_eq_iff [simp]: "lit a = lit b \<longleftrightarrow> a = b"
  by (simp add: lit_def code_def inj_map_eq_map inj_on_def)

lemma lit_Nil [simp]: "lit [] = []" "lit s = [] \<longleftrightarrow> s = []" "[] = lit s \<longleftrightarrow> s = []"
  by (auto simp: lit_def)

lemma lit_append [simp]: "lit a @ lit b = lit (a @ b)" "lit a @ lit b @ s = lit (a @ b) @ s"
  by (simp_all add: lit_def)

lemma lit_Cons: "lit (c # cs) = of_char c # lit cs"
  by (simp add: lit_def code_def)

lemmas text_eval = str_repr_def escape_def printable_def Let_def lower_def lower_char_def lit_Cons
  quoted_def code_def

section \<open>Enforcement: one result per rule\<close>

lemma enforce_rule_result:
  assumes "enforce_rule rt s rule data uc = (Inr r, s1)"
  shows "res_rule_id r = rule_id rule"
    and "evaluate_conditions rt (rule_conditions rule) data uc = Inr False \<Longrightarrow>
         res_action_taken r = ALLOW \<and> res_success r"
    and "audit_file s1 = audit_file s \<and> audit_writable s1 = audit_writable s"
  using assms
  by (auto simp: enforce_rule_def now_def split: sum.splits bool.splits)

lemma enforce_rule_error:
  assumes "enforce_rule rt s rule data uc = (Inl e, s1)"
  shows "evaluate_conditions rt (rule_conditions rule) data uc \<noteq> Inr False"
    and "audit_file s1 = audit_file s \<and> audit_writable s1 = audit_writable s"
  using assms
  by (auto simp: enforce_rule_def now_def split: sum.splits bool.splits)

lemma enforce_rules_shape:
  "enforce_rules rt pid audit data uc rs s = (results, s') \<Longrightarrow>
   list_all2 (\<lambda>rule r. res_rule_id r = rule_id rule \<and> res_policy_id r = pid \<and>
                (evaluate_conditions rt (rule_conditions rule) data uc = Inr False
                   \<longrightarrow> res_action_taken r = ALLOW \<and> res_success r)) rs results"
proof (induction rs arbitrary: s results s')
  case Nil
  then show ?case by simp
next
  case (Cons rule rest)
  obtain out s1 where step: "enforce_rule rt s rule data uc = (out, s1)"
    by (cases "enforce_rule rt s rule data uc")
  show ?case
  proof (cases out)
    case (Inr r)
    obtain tl s3 where rec:
      "enforce_rules rt pid audit data uc rest
         (if audit then log_audit_event s1 pid (r\<lparr>res_policy_id := pid\<rparr>) else s1) = (tl, s3)"
      by (cases "enforce_rules rt pid audit data uc rest
         (if audit then log_audit_event s1 pid (r\<lparr>res_policy_id := pid\<rparr>) else s1)")
    with Cons.prems step Inr have "results = r\<lparr>res_policy_id := pid\<rparr> # tl"
      by (simp add: Let_def)
    moreover note Cons.IH [OF rec] enforce_rule_result [OF step [unfolded Inr]]
    ultimately show ?thesis by simp
  next
    case (Inl e)
    obtain tl s3 where rec:
      "enforce_rules rt pid audit data uc rest (snd (now rt s1)) = (tl, s3)"
      by (cases "enforce_rules rt pid audit data uc rest (snd (now rt s1))")
    with Cons.prems step Inl have
      "results = \<lparr>res_policy_id = pid, res_rule_id = rule_id rule, res_action_taken = DENY,
                  res_success = False,
                  res_message = lit ''Rule enforcement failed: '' @ error_text e,
                  res_timestamp = fst (now rt s1), res_metadata = []\<rparr> # tl"
      by (simp add: Let_def split_beta)
    moreover note Cons.IH [OF rec] enforce_rule_error [OF step [unfolded Inl]]
    ultimately show ?thesis by simp
  qed
qed

text \<open>
  C4.  For a policy of the policy store and any record, \<open>enforce_policy\<close> returns (it
  does not raise) one result per rule of the policy, in rule order: the results pair
  up with the rules, each result carries its rule's id and the policy's id, and a
  rule whose conditions evaluate to false has a result with action \<open>ALLOW\<close> and
  success, never no result.
\<close>

theorem enforce_one_result_per_rule:
  assumes "map_of (policies s) policy_id = Some policy"
  shows "\<exists>results s'.
           enforce_policy rt s policy_id data user_context = (Inr results, s') \<and>
           length results = length (pol_rules policy) \<and>
           list_all2 (\<lambda>rule r. res_rule_id r = rule_id rule \<and> res_policy_id r = policy_id \<and>
                        (evaluate_conditions rt (rule_conditions rule) data user_context = Inr False
                           \<longrightarrow> res_action_taken r = ALLOW \<and> res_success r))
             (pol_rules policy) results"
proof -
  obtain results s' where run:
    "enforce_rules rt policy_id (pol_audit_required policy) data user_context (pol_rules policy) s
       = (results, s')"
    by (cases "enforce_rules rt policy_id (pol_audit_required policy) data user_context
                 (pol_rules policy) s")
  have shape: "list_all2 (\<lambda>rule r. res_rule_id r = rule_id rule \<and> res_policy_id r = policy_id \<and>
                        (evaluate_conditions rt (rule_conditions rule) data user_context = Inr False
                           \<longrightarrow> res_action_taken r = ALLOW \<and> res_success r))
             (pol_rules policy) results"
    by (rule enforce_rules_shape [OF run])
  then have "length results = length (pol_rules policy)"
    by (simp add: list_all2_lengthD)
  moreover from assms run
  have "enforce_policy rt s policy_id data user_context = (Inr results, s')"
    by (simp add: enforce_policy_def)
  ultimately show ?thesis using shape by blast
qed

theorem enforce_one_result_per_rule_witness:
  "map_of (policies (sample_engine [consent_rule, catch_all_rule] True)) (lit ''data_privacy_001'')
     = Some (sample_policy [consent_rule, catch_all_rule] True) \<and>
   (\<exists>results s'.
      enforce_policy sample_runtime (sample_engine [consent_rule, catch_all_rule] True)
        (lit ''data_privacy_001'') [] None = (Inr results, s') \<and>
      length results = length (pol_rules (sample_policy [consent_rule, catch_all_rule] True)) \<and>
      list_all2 (\<lambda>rule r. res_rule_id r = rule_id rule \<and> res_policy_id r = lit ''data_privacy_001'' \<and>
                   (evaluate_conditions sample_runtime (rule_conditions rule) [] None = Inr False
                      \<longrightarrow> res_action_taken r = ALLOW \<and> res_success r))
        (pol_rules (sample_policy [consent_rule, catch_all_rule] True)) results)"
proof -
  have p: "map_of (policies (sample_engine [consent_rule, catch_all_rule] True)) (lit ''data_privacy_001'')
     = Some (sample_policy [consent_rule, catch_all_rule] True)"
    by (simp add: sample_engine_def)
  from p enforce_one_result_per_rule [OF p, of sample_runtime "[]" None]
  show ?thesis by blast
qed

section \<open>Enforcement of an unknown policy\<close>

text \<open>
  C5.  For a policy id that is not in the policy store, \<open>enforce_policy\<close> raises the
  \<^verbatim>\<open>ValueError\<close> "Policy ... not found" (the spec's PolicyNotFound) with no result,
  and leaves the engine, the audit log file included, as it was.
\<close>

theorem enforce_unknown_policy:
  assumes "map_of (policies s) policy_id = None"
  shows "enforce_policy rt s policy_id data user_context
           = (Inl (ValueError (lit ''Policy '' @ policy_id @ lit '' not found'')), s)"
  using assms by (simp add: enforce_policy_def)

theorem enforce_unknown_policy_witness:
  "map_of (policies (sample_engine [consent_rule] True)) (lit ''no_such_policy'') = None \<and>
   enforce_policy sample_runtime (sample_engine [consent_rule] True) (lit ''no_such_policy'') [] None
     = (Inl (ValueError (lit ''Policy no_such_policy not found'')), sample_engine [consent_rule] True)"
proof -
  have p: "map_of (policies (sample_engine [consent_rule] True)) (lit ''no_such_policy'') = None"
    by (simp add: sample_engine_def)
  from p enforce_unknown_policy [OF p, of sample_runtime "[]" None]
  show ?thesis by simp
qed

section \<open>The audit trail\<close>

lemma broken_rule_raises:
  "evaluate_conditions rt (rule_conditions broken_rule) data uc
     = Inl (TypeError (quoted (lit ''NoneType'') @ lit '' object is not iterable''))"
  by (simp add: evaluate_conditions_def broken_rule_def has_key_def get_or_def)

text \<open>
  C2.  The claim asks for one audit entry per rule evaluated, rules that raised
  included.  The source logs the result inside \<^verbatim>\<open>try\<close> and does not log in
  \<^verbatim>\<open>except\<close>: for a policy with \<^verbatim>\<open>audit_required\<close> whose one rule raises
  (\<^verbatim>\<open>data_types\<close> is \<^verbatim>\<open>None\<close>), \<open>enforce_policy\<close> returns one result, the \<open>DENY\<close> of
  the failed rule, and the audit log file, which the engine could have written, is still
  absent: no entry was written.
\<close>

theorem failed_rule_is_not_audited:
  "enforce_policy sample_runtime (sample_engine [broken_rule] True) (lit ''data_privacy_001'') [] None
     = (Inr [\<lparr>res_policy_id = lit ''data_privacy_001'', res_rule_id = lit ''pii_detection'',
              res_action_taken = DENY, res_success = False,
              res_message = lit ''Rule enforcement failed: '' @ quoted (lit ''NoneType'')
                              @ lit '' object is not iterable'',
              res_timestamp = lit ''2024-01-15T10:00:00'', res_metadata = []\<rparr>],
        (sample_engine [broken_rule] True)\<lparr>clock_reads := 2\<rparr>)
   \<and> pol_audit_required (sample_policy [broken_rule] True)
   \<and> audit_writable ((sample_engine [broken_rule] True)\<lparr>clock_reads := 2\<rparr>)
   \<and> audit_file ((sample_engine [broken_rule] True)\<lparr>clock_reads := 2\<rparr>) = Missing"
  by (simp add: enforce_policy_def sample_engine_def sample_policy_def enforce_rule_def now_def
        broken_rule_raises sample_runtime_def del: lit_append)
    (simp add: broken_rule_def)

text \<open>Without \<^verbatim>\<open>audit_required\<close> the loop leaves the audit log file as it is.\<close>

lemma no_audit_without_audit_required:
  "enforce_rules rt pid False data uc rs s = (results, s') \<Longrightarrow> audit_file s' = audit_file s"
proof (induction rs arbitrary: s results s')
  case Nil
  then show ?case by simp
next
  case (Cons rule rest)
  obtain out s1 where step: "enforce_rule rt s rule data uc = (out, s1)"
    by (cases "enforce_rule rt s rule data uc")
  then have s1: "audit_file s1 = audit_file s"
    by (cases out) (auto dest: enforce_rule_result(3) enforce_rule_error(2))
  show ?case
  proof (cases out)
    case (Inr r)
    with Cons.prems step obtain tl where "enforce_rules rt pid False data uc rest s1 = (tl, s')"
      by (auto simp: Let_def split: prod.splits)
    from Cons.IH [OF this] s1 show ?thesis by simp
  next
    case (Inl e)
    with Cons.prems step obtain tl where
      "enforce_rules rt pid False data uc rest (snd (now rt s1)) = (tl, s')"
      by (auto simp: Let_def split: prod.splits)
    from Cons.IH [OF this] s1 show ?thesis by (simp add: now_def)
  qed
qed

lemma execute_action_success:
  "execute_action rt act data conditions = Inr ar \<Longrightarrow> act \<noteq> VALIDATE \<Longrightarrow> ar_success ar"
  by (cases act)
    (auto simp: anonymize_data_def encrypt_data_def flag_data_def escalate_decision_def
       send_notification_def log_activity_def restrict_access_def delete_data_def Let_def)

lemma enforce_rule_logged:
  assumes "enforce_rule rt s rule data uc = (Inr r, s1)"
  shows "res_action_taken r \<noteq> DENY \<or> res_success r"
  using assms
  by (auto simp: enforce_rule_def now_def split: sum.splits bool.splits
        dest: execute_action_success)

text \<open>
  With \<^verbatim>\<open>audit_required\<close>, a log file that can be read (or does not exist yet) and
  written gains, in the order of the results, the event of every result except those
  of rules that raised (the results with action \<open>DENY\<close> and no success).  A file that
  cannot be read or written stays as it is.
\<close>

lemma log_audit_event_store:
  "audit_writable (log_audit_event s pid r) = audit_writable s"
  "audit_file (log_audit_event s pid r) =
     (if audit_writable s then
        (case audit_file s of
           Missing \<Rightarrow> Holds [audit_event_of pid r]
         | Holds l \<Rightarrow> Holds (l @ [audit_event_of pid r])
         | Unreadable e \<Rightarrow> Unreadable e)
      else audit_file s)"
  by (simp_all add: log_audit_event_def split: audit_store.splits)

text \<open>When the file cannot be read or cannot be written, the event is lost.\<close>

lemma log_audit_event_lost:
  "\<not> audit_writable s \<or> audit_file s = Unreadable e \<Longrightarrow> log_audit_event s pid r = s"
  by (auto simp: log_audit_event_def split: audit_store.splits)

lemma audit_log_after_enforcement:
  "enforce_rules rt pid True data uc rs s = (results, s') \<Longrightarrow>
   audit_writable s' = audit_writable s \<and>
   audit_file s' =
     (let logged = map (audit_event_of pid)
                     (filter (\<lambda>r. res_action_taken r \<noteq> DENY \<or> res_success r) results)
      in if logged = [] \<or> \<not> audit_writable s then audit_file s
         else (case audit_file s of
                 Missing \<Rightarrow> Holds logged
               | Holds l \<Rightarrow> Holds (l @ logged)
               | Unreadable e \<Rightarrow> Unreadable e))"
proof (induction rs arbitrary: s results s')
  case Nil
  then show ?case by simp
next
  case (Cons rule rest)
  obtain out s1 where step: "enforce_rule rt s rule data uc = (out, s1)"
    by (cases "enforce_rule rt s rule data uc")
  show ?case
  proof (cases out)
    case (Inr r)
    let ?r = "r\<lparr>res_policy_id := pid\<rparr>"
    obtain tl s3 where rec:
      "enforce_rules rt pid True data uc rest (log_audit_event s1 pid ?r) = (tl, s3)"
      by (cases "enforce_rules rt pid True data uc rest (log_audit_event s1 pid ?r)")
    with Cons.prems step Inr have res: "results = ?r # tl" "s' = s3"
      by (simp_all add: Let_def)
    from enforce_rule_result(3) [OF step [unfolded Inr]]
    have s1: "audit_file s1 = audit_file s" "audit_writable s1 = audit_writable s"
      by simp_all
    from enforce_rule_logged [OF step [unfolded Inr]]
    have keep: "res_action_taken ?r \<noteq> DENY \<or> res_success ?r" by simp
    from Cons.IH [OF rec] res s1 keep show ?thesis
      by (auto simp: Let_def log_audit_event_store split: audit_store.splits)
  next
    case (Inl e)
    obtain tl s3 where rec:
      "enforce_rules rt pid True data uc rest (snd (now rt s1)) = (tl, s3)"
      by (cases "enforce_rules rt pid True data uc rest (snd (now rt s1))")
    with Cons.prems step Inl have res:
      "results = \<lparr>res_policy_id = pid, res_rule_id = rule_id rule, res_action_taken = DENY,
                  res_success = False,
                  res_message = lit ''Rule enforcement failed: '' @ error_text e,
                  res_timestamp = fst (now rt s1), res_metadata = []\<rparr> # tl" "s' = s3"
      by (simp_all add: Let_def split_beta)
    from enforce_rule_error(2) [OF step [unfolded Inl]]
    have "audit_file s1 = audit_file s" "audit_writable s1 = audit_writable s"
      by simp_all
    with Cons.IH [OF rec] res show ?thesis
      by (simp add: Let_def now_def)
  qed
qed

section \<open>Rounding to a double\<close>

lemma pow2_pos [simp]: "0 < pow2 e"
  by (simp add: pow2_def zero_less_power_int)

lemma pow2_add1: "pow2 (e + 1) = 2 * pow2 e"
  by (simp add: pow2_def power_int_add)

lemma pow2_sub1: "pow2 (e - 1) = pow2 e / 2"
  by (simp add: pow2_def power_int_diff)

lemma pow2_mono: "e \<le> e' \<Longrightarrow> pow2 e \<le> pow2 e'"
  by (simp add: pow2_def power_int_increasing)

lemma pow2_add: "pow2 (a + b) = pow2 a * pow2 b"
  by (simp add: pow2_def power_int_add)

lemma expo_bounds: "0 < x \<Longrightarrow> pow2 (expo x) \<le> x \<and> x < pow2 (expo x + 1)"
proof (induction x rule: expo.induct)
  case (1 x)
  show ?case
  proof (cases "2 \<le> x")
    case True
    with "1.prems" "1.IH"(1) have "pow2 (expo (x / 2)) \<le> x / 2 \<and> x / 2 < pow2 (expo (x / 2) + 1)"
      by simp
    moreover from True "1.prems" have "expo x = expo (x / 2) + 1"
      by (subst expo.simps) simp
    moreover have "pow2 (expo (x / 2) + 1) = 2 * pow2 (expo (x / 2))"
      "pow2 (expo (x / 2) + 1 + 1) = 2 * pow2 (expo (x / 2) + 1)"
      by (rule pow2_add1)+
    ultimately show ?thesis
      by (simp only:) linarith
  next
    case False
    show ?thesis
    proof (cases "x < 1")
      case True
      with False "1.prems" "1.IH"(2)
      have "pow2 (expo (x * 2)) \<le> x * 2 \<and> x * 2 < pow2 (expo (x * 2) + 1)"
        by simp
      moreover from True False "1.prems" have "expo x = expo (x * 2) - 1"
        by (subst expo.simps) simp
      moreover have "pow2 (expo (x * 2) - 1) = pow2 (expo (x * 2)) / 2"
        by (rule pow2_sub1)
      moreover have "pow2 (expo (x * 2) + 1) = 2 * pow2 (expo (x * 2))"
        by (rule pow2_add1)
      moreover have "expo (x * 2) - 1 + 1 = expo (x * 2)"
        by simp
      ultimately show ?thesis
        by (simp only:) linarith
    next
      case ge: False
      with False "1.prems" have "expo x = 0"
        by (subst expo.simps) simp
      with False ge show ?thesis
        by (simp add: pow2_def)
    qed
  qed
qed

lemma expo_mono:
  assumes "0 < x" and "x \<le> y"
  shows "expo x \<le> expo y"
proof (rule ccontr)
  assume "\<not> expo x \<le> expo y"
  then have "expo y + 1 \<le> expo x" by simp
  then have "pow2 (expo y + 1) \<le> pow2 (expo x)" by (rule pow2_mono)
  moreover from assms have "0 < y" by simp
  ultimately show False
    using expo_bounds [of x] expo_bounds [of y] assms by simp
qed

lemma round_even_of_int [simp]: "round_even (of_int n) = n"
  by (simp add: round_even_def)

lemma round_even_bounds: "\<lfloor>y\<rfloor> \<le> round_even y" "round_even y \<le> \<lfloor>y\<rfloor> + 1"
  by (simp_all add: round_even_def Let_def)

lemma round_even_mono:
  assumes "y \<le> z"
  shows "round_even y \<le> round_even z"
proof (cases "\<lfloor>y\<rfloor> = \<lfloor>z\<rfloor>")
  case True
  with assms show ?thesis
    by (auto simp: round_even_def Let_def)
next
  case False
  from assms have "\<lfloor>y\<rfloor> \<le> \<lfloor>z\<rfloor>" by (rule floor_mono)
  with False have "\<lfloor>y\<rfloor> + 1 \<le> \<lfloor>z\<rfloor>" by simp
  with round_even_bounds(2) [of y] round_even_bounds(1) [of z] show ?thesis
    by linarith
qed

lemma to_double_pos:
  assumes "0 < x"
  shows "to_double x = of_int (round_even (x / pow2 (expo x - 52))) * pow2 (expo x - 52)"
  using assms by (simp add: to_double_def)

text \<open>The rounded value stays in the binade of the number, its upper end included.\<close>

lemma to_double_binade:
  assumes "0 < x"
  shows "pow2 (expo x) \<le> to_double x" and "to_double x \<le> pow2 (expo x + 1)"
proof -
  let ?u = "pow2 (expo x - 52)"
  have e: "expo x = 52 + (expo x - 52)" "expo x + 1 = 53 + (expo x - 52)"
    by simp_all
  have p: "pow2 52 = 2 ^ 52" "pow2 53 = 2 ^ 53"
    by (simp_all add: pow2_def)
  have u: "pow2 (expo x) = 2 ^ 52 * ?u" "pow2 (expo x + 1) = 2 ^ 53 * ?u"
    using pow2_add [of 52 "expo x - 52"] pow2_add [of 53 "expo x - 52"] e p
    by (simp_all only:)
  from expo_bounds [OF assms] u have "2 ^ 52 * ?u \<le> x" "x < 2 ^ 53 * ?u"
    by simp_all
  then have q: "of_int (2 ^ 52) \<le> x / ?u" "x / ?u \<le> of_int (2 ^ 53)"
    by (simp_all add: field_simps)
  from round_even_mono [OF q(1)] round_even_mono [OF q(2)]
  have "2 ^ 52 \<le> round_even (x / ?u)" "round_even (x / ?u) \<le> 2 ^ 53"
    by (simp_all only: round_even_of_int)
  then have "(2 ^ 52 :: rat) \<le> of_int (round_even (x / ?u))" "(of_int (round_even (x / ?u)) :: rat) \<le> 2 ^ 53"
    by (simp_all add: of_int_le_iff [symmetric] del: of_int_le_iff)
  then have "2 ^ 52 * ?u \<le> of_int (round_even (x / ?u)) * ?u"
    "of_int (round_even (x / ?u)) * ?u \<le> 2 ^ 53 * ?u"
    by (simp_all add: mult_right_mono)
  with u to_double_pos [OF assms]
  show "pow2 (expo x) \<le> to_double x" and "to_double x \<le> pow2 (expo x + 1)"
    by simp_all
qed

lemma to_double_mono:
  assumes "0 \<le> x" and "x \<le> y"
  shows "to_double x \<le> to_double y"
proof (cases "x = 0")
  case True
  show ?thesis
  proof (cases "y = 0")
    case False
    with assms have "0 < y" by simp
    from to_double_binade(1) [OF this] pow2_pos [of "expo y"] have "0 \<le> to_double y"
      by linarith
    with True show ?thesis
      by (simp add: to_double_def [of 0])
  qed (simp add: True)
next
  case False
  with assms have x: "0 < x" and y: "0 < y" by simp_all
  show ?thesis
  proof (cases "expo x = expo y")
    case True
    from assms(2) have "x / pow2 (expo y - 52) \<le> y / pow2 (expo y - 52)"
      by (rule divide_right_mono) (simp add: less_imp_le)
    from round_even_mono [OF this]
    have "(of_int (round_even (x / pow2 (expo y - 52))) :: rat)
            \<le> of_int (round_even (y / pow2 (expo y - 52)))"
      by simp
    then show ?thesis
      by (simp add: to_double_pos x y True mult_right_mono)
  next
    case False
    with expo_mono [OF x assms(2)] have "expo x + 1 \<le> expo y" by simp
    from pow2_mono [OF this] to_double_binade(2) [OF x] to_double_binade(1) [OF y]
    show ?thesis by simp
  qed
qed

lemma floor_numeral_div: "\<lfloor>numeral a / numeral b :: rat\<rfloor> = numeral a div numeral b"
  using floor_divide_of_int_eq [of "numeral a" "numeral b", where ?'a = rat] by simp

lemmas fl_eval = to_double_def round_even_def expo.simps pow2_def power_int_minus Let_def
  floor_numeral_div

lemma to_double_exact [simp]: "to_double 0 = 0" "to_double 1 = 1" "to_double 100 = 100"
  by (simp_all add: fl_eval)

lemma round_even_error: "\<bar>of_int (round_even y) - y\<bar> \<le> 1 / 2"
proof -
  have "of_int \<lfloor>y\<rfloor> \<le> y" "y < of_int \<lfloor>y\<rfloor> + 1"
    by linarith+
  then show ?thesis
    by (auto simp: round_even_def Let_def abs_le_iff)
qed

text \<open>The rounding error is at most half a unit in the last place.\<close>

lemma to_double_error:
  assumes "0 < x"
  shows "\<bar>to_double x - x\<bar> \<le> x / 2 ^ 53"
proof -
  let ?u = "pow2 (expo x - 52)"
  have u: "0 < ?u" by simp
  then have "?u \<noteq> 0" by (rule less_imp_neq [symmetric])
  then have eq: "to_double x - x = (of_int (round_even (x / ?u)) - x / ?u) * ?u"
    by (simp add: to_double_pos assms field_simps)
  have "\<bar>to_double x - x\<bar> = \<bar>of_int (round_even (x / ?u)) - x / ?u\<bar> * ?u"
    by (simp only: eq abs_mult abs_of_pos [OF u])
  also have "\<dots> \<le> 1 / 2 * ?u"
    by (rule mult_right_mono [OF round_even_error less_imp_le [OF u]])
  also have "\<dots> = pow2 (expo x) / 2 ^ 53"
  proof -
    have "expo x = 52 + (expo x - 52)" by simp
    then have "pow2 (expo x) = pow2 52 * ?u"
      using pow2_add [of 52 "expo x - 52"] by (simp only:)
    then show ?thesis by (simp add: pow2_def)
  qed
  also have "\<dots> \<le> x / 2 ^ 53"
    using expo_bounds [OF assms] by (simp add: divide_right_mono)
  finally show ?thesis .
qed

lemma rate_bounds:
  assumes "k \<le> n" and "0 < n"
  shows "0 \<le> to_double (to_double (of_nat k / of_nat n) * 100)"
    and "to_double (to_double (of_nat k / of_nat n) * 100) \<le> 100"
    and "\<bar>to_double (to_double (of_nat k / of_nat n) * 100) - of_nat k / of_nat n * 100\<bar>
           \<le> 200 / 2 ^ 53"
proof -
  let ?x = "of_nat k / of_nat n :: rat" and ?q = "to_double (of_nat k / of_nat n)"
  from assms have x: "0 \<le> ?x" "?x \<le> 1"
    by simp_all
  from to_double_mono [OF order_refl x(1)] to_double_mono [OF x] have q: "0 \<le> ?q" "?q \<le> 1"
    by simp_all
  then have q100: "0 \<le> ?q * 100" "?q * 100 \<le> 100"
    by simp_all
  from to_double_mono [OF order_refl q100(1)] to_double_mono [OF q100]
  show "0 \<le> to_double (?q * 100)" and "to_double (?q * 100) \<le> 100"
    by simp_all
  have e1: "\<bar>?q - ?x\<bar> \<le> 1 / 2 ^ 53"
  proof (cases "?x = 0")
    case True
    have "?q - ?x = 0" unfolding True by simp
    then show ?thesis by simp
  next
    case False
    with x have "0 < ?x" by simp
    from to_double_error [OF this] x(2) show ?thesis
      by (simp add: field_simps)
  qed
  have e2: "\<bar>to_double (?q * 100) - ?q * 100\<bar> \<le> 100 / 2 ^ 53"
  proof (cases "?q = 0")
    case True
    have "to_double (?q * 100) - ?q * 100 = 0" unfolding True by simp
    then show ?thesis by simp
  next
    case False
    with q have "0 < ?q * 100" by simp
    from to_double_error [OF this] q(2) show ?thesis
      by (simp add: field_simps)
  qed
  have "to_double (?q * 100) - ?x * 100 = (to_double (?q * 100) - ?q * 100) + (?q - ?x) * 100"
    by (simp add: algebra_simps)
  moreover have "\<bar>(to_double (?q * 100) - ?q * 100) + (?q - ?x) * 100\<bar>
          \<le> \<bar>to_double (?q * 100) - ?q * 100\<bar> + \<bar>(?q - ?x) * 100\<bar>"
    by (rule abs_triangle_ineq)
  moreover have "\<bar>(?q - ?x) * 100\<bar> = \<bar>?q - ?x\<bar> * 100"
    by (simp only: abs_mult abs_numeral)
  ultimately have "\<bar>to_double (?q * 100) - ?x * 100\<bar>
          \<le> \<bar>to_double (?q * 100) - ?q * 100\<bar> + \<bar>?q - ?x\<bar> * 100"
    by (simp only:)
  with e1 e2 show "\<bar>to_double (?q * 100) - ?x * 100\<bar> \<le> 200 / 2 ^ 53"
    by simp
qed

section \<open>The compliance dashboard\<close>

lemma dashboard_of_log:
  "audit_file s = Holds audit_log \<Longrightarrow>
   get_compliance_dashboard s =
     Dashboard
       \<lparr>total_policies = length (policies s),
        total_enforcements = length audit_log,
        successful_enforcements = length (filter ev_success audit_log),
        failed_enforcements = length audit_log - length (filter ev_success audit_log),
        compliance_rate =
          (if 0 < length audit_log
           then to_double (to_double (of_nat (length (filter ev_success audit_log))
                                       / of_nat (length audit_log)) * 100)
           else 0)\<rparr>
       (foldl count_policy [] audit_log) (foldl count_action [] audit_log)
       (drop (length audit_log - 10) audit_log)"
  by (simp add: get_compliance_dashboard_def load_audit_log_def Let_def float_mul_def
        int_truediv_def)

text \<open>
  C9, as amended.  Whenever the audit log can be read, the dashboard is a summary whose
  \<open>compliance_rate\<close> is 0 when there is no event, and otherwise the value of the
  float expression of the source: the quotient of the successful events by all
  events, rounded to a double, times 100, rounded to a double again.  The rate lies
  between 0 and 100, and it differs from the exact quotient times 100 by no more than
  \<open>200 / 2\<^sup>5\<^sup>3\<close>.
\<close>

theorem dashboard_compliance_rate:
  assumes "audit_file s = Holds audit_log"
  shows "\<exists>sm ps acts recent.
           get_compliance_dashboard s = Dashboard sm ps acts recent \<and>
           total_enforcements sm = length audit_log \<and>
           successful_enforcements sm = length (filter ev_success audit_log) \<and>
           compliance_rate sm =
             (if total_enforcements sm = 0 then 0
              else to_double (to_double (of_nat (successful_enforcements sm)
                                          / of_nat (total_enforcements sm)) * 100)) \<and>
           0 \<le> compliance_rate sm \<and> compliance_rate sm \<le> 100 \<and>
           \<bar>compliance_rate sm
              - (if total_enforcements sm = 0 then 0
                 else of_nat (successful_enforcements sm) / of_nat (total_enforcements sm) * 100)\<bar>
             \<le> 200 / 2 ^ 53"
proof -
  let ?n = "length audit_log" and ?k = "length (filter ev_success audit_log)"
  have k: "?k \<le> ?n" by simp
  show ?thesis
  proof (cases "?n = 0")
    case True
    with assms show ?thesis
      by (simp add: dashboard_of_log)
  next
    case False
    then have n: "0 < ?n" by simp
    from rate_bounds [OF k n] False show ?thesis
      by (simp add: dashboard_of_log [OF assms])
  qed
qed

theorem dashboard_compliance_rate_witness:
  "audit_file \<lparr>policies = [], audit_file = Holds [sample_event True, sample_event False,
       sample_event True, sample_event True], audit_writable = True, clock_reads = 0\<rparr>
     = Holds [sample_event True, sample_event False, sample_event True, sample_event True] \<and>
   (\<exists>sm ps acts recent.
      get_compliance_dashboard \<lparr>policies = [], audit_file = Holds [sample_event True,
          sample_event False, sample_event True, sample_event True], audit_writable = True,
          clock_reads = 0\<rparr>
        = Dashboard sm ps acts recent \<and>
      total_enforcements sm = 4 \<and> successful_enforcements sm = 3 \<and>
      compliance_rate sm = 75 \<and> 0 \<le> compliance_rate sm \<and> compliance_rate sm \<le> 100)"
proof -
  have a: "audit_file \<lparr>policies = [], audit_file = Holds [sample_event True, sample_event False,
       sample_event True, sample_event True], audit_writable = True, clock_reads = 0\<rparr>
     = Holds [sample_event True, sample_event False, sample_event True, sample_event True]"
    by simp
  have r: "to_double (to_double (3 / 4) * 100) = 75"
    by (simp add: fl_eval)
  from dashboard_compliance_rate [OF a] obtain sm ps acts recent where
    "get_compliance_dashboard \<lparr>policies = [], audit_file = Holds [sample_event True,
          sample_event False, sample_event True, sample_event True], audit_writable = True,
          clock_reads = 0\<rparr>
        = Dashboard sm ps acts recent"
    "total_enforcements sm = 4" "successful_enforcements sm = 3"
    "compliance_rate sm =
             (if total_enforcements sm = 0 then 0
              else to_double (to_double (of_nat (successful_enforcements sm)
                                          / of_nat (total_enforcements sm)) * 100))"
    "0 \<le> compliance_rate sm" "compliance_rate sm \<le> 100"
    by (auto simp: sample_event_def)
  with r show ?thesis
    by (intro conjI exI[of _ sm] exI[of _ ps] exI[of _ acts] exI[of _ recent]) auto
qed

text \<open>
  The claim as stated fails.  With 11 successful events of 20 the rate is
  55.00000000000001, the double next above 55, and not 11 / 20 \<times> 100 = 55.  And for
  an engine whose audit log file does not exist yet the dashboard has no rate at all:
  it is the error descriptor of the failed read.
\<close>

theorem dashboard_rate_is_rounded:
  "compliance_rate (dash_summary (get_compliance_dashboard
      \<lparr>policies = [], audit_file = Holds (map sample_event
           [True, True, False, True, True, False, True, False, True, True,
            False, True, False, True, False, True, False, True, False, False]),
       audit_writable = True, clock_reads = 0\<rparr>))
     = 55 + 1 / 2 ^ 47
   \<and> (11 :: rat) / 20 * 100 = 55
   \<and> get_compliance_dashboard (sample_engine [] True) = DashboardError file_not_found"
  by (simp add: get_compliance_dashboard_def load_audit_log_def Let_def float_mul_def
        int_truediv_def sample_event_def sample_engine_def fl_eval)

section \<open>Reading a missing audit log\<close>

text \<open>For every engine whose audit log file does not exist, both reports end in their
  \<^verbatim>\<open>except\<close> branch.\<close>

lemma missing_audit_file_reports_error:
  assumes "audit_file s = Missing"
  shows "get_compliance_dashboard s = DashboardError file_not_found"
    and "get_policy_status s policy_id =
         (case map_of (policies s) policy_id of
            None \<Rightarrow> Inl (ValueError (lit ''Policy '' @ policy_id @ lit '' not found''))
          | Some policy \<Rightarrow> Inr (PolicyStatusError policy_id (pol_name policy) file_not_found))"
  using assms
  by (simp_all add: get_compliance_dashboard_def get_policy_status_def load_audit_log_def
        split: option.splits)

text \<open>
  C6.  The claim asks that a missing audit store reads as the empty log, so that the
  dashboard and the per-policy status are those of zero events.  In the source only
  \<^verbatim>\<open>_log_audit_event\<close> reads it so (\<^verbatim>\<open>except FileNotFoundError: pass\<close>): on the engine
  with no audit log file, which it can write, its append leaves a log of one event.
  The two reports have no such handler: on the same engine the dashboard and the
  status return the error text of the failed \<^verbatim>\<open>open\<close>, where an empty log gives the
  summary and the status of zero events.
\<close>

theorem missing_audit_file_is_not_an_empty_log:
  "audit_file (sample_engine [] True) = Missing
   \<and> get_compliance_dashboard (sample_engine [] True) = DashboardError file_not_found
   \<and> get_compliance_dashboard ((sample_engine [] True)\<lparr>audit_file := Holds []\<rparr>)
       = Dashboard \<lparr>total_policies = 1, total_enforcements = 0, successful_enforcements = 0,
                    failed_enforcements = 0, compliance_rate = 0\<rparr> [] [] []
   \<and> get_policy_status (sample_engine [] True) (lit ''data_privacy_001'')
       = Inr (PolicyStatusError (lit ''data_privacy_001'') (lit ''Data Privacy'') file_not_found)
   \<and> get_policy_status ((sample_engine [] True)\<lparr>audit_file := Holds []\<rparr>)
         (lit ''data_privacy_001'')
       = Inr (PolicyStatus (lit ''data_privacy_001'') (lit ''Data Privacy'') 0 0 0 None
                [lit ''GDPR''])
   \<and> audit_file (log_audit_event (sample_engine [] True) (lit ''data_privacy_001'') result)
       = Holds [audit_event_of (lit ''data_privacy_001'') result]
   \<and> file_not_found = lit ''[Errno 2] No such file or directory: ''
                          @ quoted (lit ''compliance/audit_log.json'')"
  by (simp add: get_compliance_dashboard_def get_policy_status_def load_audit_log_def
        log_audit_event_def sample_engine_def sample_policy_def file_not_found_def)

section \<open>Consent rules\<close>

text \<open>
  C1, as amended.  For conditions that hold \<^verbatim>\<open>consent_required\<close> with a truthy value
  and neither \<^verbatim>\<open>data_types\<close> nor \<^verbatim>\<open>protected_attributes\<close> (which the dispatch tries
  first), the evaluator returns true exactly when the record has a
  \<^verbatim>\<open>consent_timestamp\<close> entry with a truthy value, and false when it has none: the rule
  fires when consent was given.
\<close>

theorem consent_rule_fires_iff_consent_given:
  assumes "map_of conditions (lit ''consent_required'') = Some required" and "truthy required"
    and "\<not> has_key conditions (lit ''data_types'')"
    and "\<not> has_key conditions (lit ''protected_attributes'')"
  shows "evaluate_conditions rt conditions data user_context
           = Inr (case map_of data (lit ''consent_timestamp'') of
                    Some consent_timestamp \<Rightarrow> truthy consent_timestamp
                  | None \<Rightarrow> False)"
  using assms
  by (simp add: evaluate_conditions_def has_key_def validate_consent_def get_or_def
        split: option.splits)

theorem consent_rule_fires_iff_consent_given_witness:
  "map_of [(lit ''consent_required'', PBool True), (lit ''consent_expiry'', PStr (lit ''2_years''))]
      (lit ''consent_required'') = Some (PBool True)
   \<and> truthy (PBool True)
   \<and> \<not> has_key [(lit ''consent_required'', PBool True), (lit ''consent_expiry'', PStr (lit ''2_years''))]
         (lit ''data_types'')
   \<and> \<not> has_key [(lit ''consent_required'', PBool True), (lit ''consent_expiry'', PStr (lit ''2_years''))]
         (lit ''protected_attributes'')
   \<and> evaluate_conditions sample_runtime
        [(lit ''consent_required'', PBool True), (lit ''consent_expiry'', PStr (lit ''2_years''))]
        [(lit ''customer_email'', PStr (lit ''john.doe@example.com'')),
         (lit ''consent_timestamp'', PStr (lit ''2024-01-15T10:00:00Z''))] None = Inr True"
  using consent_rule_fires_iff_consent_given
    [of "[(lit ''consent_required'', PBool True), (lit ''consent_expiry'', PStr (lit ''2_years''))]"
        "PBool True" sample_runtime
        "[(lit ''customer_email'', PStr (lit ''john.doe@example.com'')),
          (lit ''consent_timestamp'', PStr (lit ''2024-01-15T10:00:00Z''))]" None]
  by (simp add: has_key_def)

text \<open>The claim as stated fails: with consent missing the evaluator returns false,
  with consent given it returns true, and behind \<^verbatim>\<open>data_types\<close> the consent branch is
  not reached.\<close>

theorem consent_missing_rule_does_not_fire:
  "map_of [(lit ''customer_email'', PStr (lit ''john.doe@example.com''))] (lit ''consent_timestamp'') = None
   \<and> evaluate_conditions sample_runtime [(lit ''consent_required'', PBool True)]
        [(lit ''customer_email'', PStr (lit ''john.doe@example.com''))] None = Inr False
   \<and> map_of [(lit ''consent_timestamp'', PStr (lit ''2024-01-15T10:00:00Z''))] (lit ''consent_timestamp'')
        = Some (PStr (lit ''2024-01-15T10:00:00Z''))
   \<and> evaluate_conditions sample_runtime [(lit ''consent_required'', PBool True)]
        [(lit ''consent_timestamp'', PStr (lit ''2024-01-15T10:00:00Z''))] None = Inr True
   \<and> evaluate_conditions sample_runtime
        [(lit ''data_types'', PList []), (lit ''consent_required'', PBool True)]
        [(lit ''consent_timestamp'', PStr (lit ''2024-01-15T10:00:00Z''))] None = Inr False"
  by (simp add: evaluate_conditions_def has_key_def validate_consent_def get_or_def)

text \<open>
  C10, as amended.  For a rule whose conditions hold \<^verbatim>\<open>consent_required\<close> with a falsy
  value and neither \<^verbatim>\<open>data_types\<close> nor \<^verbatim>\<open>protected_attributes\<close>, the evaluator
  returns true for every record, and \<open>enforce_rule\<close> executes the rule's action: its
  result carries the rule's action, or the executor's error if the action raises.
\<close>

theorem consent_not_required_rule_fires:
  assumes "map_of (rule_conditions rule) (lit ''consent_required'') = Some required"
    and "\<not> truthy required"
    and "\<not> has_key (rule_conditions rule) (lit ''data_types'')"
    and "\<not> has_key (rule_conditions rule) (lit ''protected_attributes'')"
  shows "evaluate_conditions rt (rule_conditions rule) data user_context = Inr True
     \<and> map_sum id res_action_taken (fst (enforce_rule rt s rule data user_context))
         = map_sum id (\<lambda>r. rule_action rule)
             (execute_action rt (rule_action rule) data (rule_conditions rule))"
proof -
  from assms have ev: "evaluate_conditions rt (rule_conditions rule) data user_context = Inr True"
    by (simp add: evaluate_conditions_def has_key_def validate_consent_def get_or_def)
  then show ?thesis
    by (simp add: enforce_rule_def now_def split: sum.splits)
qed

theorem consent_not_required_rule_fires_witness:
  "map_of (rule_conditions optional_consent_rule) (lit ''consent_required'') = Some (PBool False)
   \<and> \<not> truthy (PBool False)
   \<and> \<not> has_key (rule_conditions optional_consent_rule) (lit ''data_types'')
   \<and> \<not> has_key (rule_conditions optional_consent_rule) (lit ''protected_attributes'')
   \<and> evaluate_conditions sample_runtime (rule_conditions optional_consent_rule) [] None = Inr True
   \<and> map_sum id res_action_taken
        (fst (enforce_rule sample_runtime
               \<lparr>policies = [], audit_file = Missing, audit_writable = True, clock_reads = 0\<rparr> optional_consent_rule [] None))
       = Inr LOG"
  using consent_not_required_rule_fires
    [of optional_consent_rule "PBool False" sample_runtime "[]" None
        "\<lparr>policies = [], audit_file = Missing, audit_writable = True, clock_reads = 0\<rparr>"]
  by (simp add: has_key_def optional_consent_rule_def log_activity_def)

text \<open>The claim as stated fails for conditions that also hold \<^verbatim>\<open>data_types\<close>: the
  dispatch takes the PII branch and the evaluator returns false.\<close>

theorem consent_not_required_rule_behind_data_types:
  "map_of [(lit ''data_types'', PList []), (lit ''consent_required'', PBool False)] (lit ''consent_required'')
     = Some (PBool False)
   \<and> \<not> truthy (PBool False)
   \<and> evaluate_conditions sample_runtime
        [(lit ''data_types'', PList []), (lit ''consent_required'', PBool False)] [] None = Inr False"
  by (simp add: evaluate_conditions_def has_key_def get_or_def)

section \<open>Protected health information\<close>

lemma detect_pii_kinds:
  "set (detect_pii rt data) \<subseteq> {(lit ''email''), lit ''phone'', lit ''ssn'', (lit ''credit_card'')}"
  by (auto simp: detect_pii_def pii_kinds_def Let_def)

lemma phi_branch_unreachable:
  "\<not> has_key conditions (lit ''data_types'') \<Longrightarrow>
   str_in (lit ''medical_record'') (get_or conditions (lit ''data_types'') (PList [])) = Inr False"
  by (simp add: has_key_def get_or_def)

lemma medical_record_not_pii: "PStr (lit ''medical_record'') \<notin> PStr ` set (detect_pii rt data)"
  using detect_pii_kinds [of rt data] by auto

text \<open>
  C3.  The claim says that \<^verbatim>\<open>medical_record\<close> among \<^verbatim>\<open>data_types\<close> selects the PHI
  keyword scan.  In the source the test for \<^verbatim>\<open>data_types\<close> comes first and returns,
  so the PHI branch is never reached: on the record of the repository's HIPAA test
  the evaluator returns false (no PII kind is called \<^verbatim>\<open>medical_record\<close>) although
  the PHI scan of the same record finds an indicator.
\<close>

theorem medical_record_rule_skips_phi_scan:
  "evaluate_conditions sample_runtime [(lit ''data_types'', PList [PStr (lit ''medical_record'')])]
     [(lit ''patient_id'', PStr (lit ''PAT_12345'')), (lit ''medical_record'', PStr (lit ''Patient has diabetes'')),
      (lit ''doctor'', PStr (lit ''Dr. Smith''))] None = Inr False
   \<and> detect_phi sample_runtime
     [(lit ''patient_id'', PStr (lit ''PAT_12345'')), (lit ''medical_record'', PStr (lit ''Patient has diabetes'')),
      (lit ''doctor'', PStr (lit ''Dr. Smith''))]"
proof -
  have "detect_phi sample_runtime
     [(lit ''patient_id'', PStr (lit ''PAT_12345'')), (lit ''medical_record'', PStr (lit ''Patient has diabetes'')),
      (lit ''doctor'', PStr (lit ''Dr. Smith''))]"
    by (simp add: detect_phi_def phi_indicators_def text_eval)
  then show ?thesis
    by (simp add: evaluate_conditions_def has_key_def get_or_def medical_record_not_pii)
qed


section \<open>Matching: general facts\<close>

lemma last_opt_simps [simp]:
  "last_opt p [] = p"
  "last_opt p (c # cs) = last_opt (Some c) cs"
  "last_opt (last_opt p a) b = last_opt p (a @ b)"
  by (auto simp: last_opt_def)

lemma in_seq_rest:
  "x \<in> set (seq_rest rt b p s ms) \<longleftrightarrow>
   (\<exists>m \<in> set ms. \<exists>m' \<in> set (rmatch rt b (last_opt p m) (drop (length m) s)). x = m @ m')"
  by (induction ms) auto

lemma in_rmatch_Rep:
  "m \<in> set (rmatch rt (Rep cl lo hi) p s) \<longleftrightarrow>
   (\<exists>j. m = take j s \<and> lo \<le> j \<and> j \<le> length (takeWhile (in_class rt cl) s) \<and>
        (case hi of None \<Rightarrow> True | Some h \<Rightarrow> j \<le> h))"
  by (auto split: option.splits)

lemma in_rmatch_Chr:
  "m \<in> set (rmatch rt (Chr c) p s) \<longleftrightarrow> (\<exists>t. s = c # t \<and> m = [c])"
  by (cases s) auto

lemma in_rmatch_Cls:
  "m \<in> set (rmatch rt (Cls cl) p s) \<longleftrightarrow> (\<exists>c t. s = c # t \<and> in_class rt cl c \<and> m = [c])"
  by (cases s) auto

lemma in_rmatch_WordB:
  "m \<in> set (rmatch rt WordB p s) \<longleftrightarrow> m = [] \<and> word_at rt p \<noteq> word_at rt (hd_opt s)"
  by auto

declare rmatch.simps(6) [simp del]

lemma rmatch_prefix: "m \<in> set (rmatch rt r p s) \<Longrightarrow> \<exists>t. s = m @ t"
proof (induction r arbitrary: p s m)
  case WordB
  then show ?case by (auto split: if_splits)
next
  case (Chr x)
  then show ?case by (auto simp: in_rmatch_Chr)
next
  case (Cls cl)
  then show ?case by (auto simp: in_rmatch_Cls)
next
  case (Rep cl lo hi)
  then obtain j where "m = take j s" by (auto simp: in_rmatch_Rep)
  then have "s = m @ drop j s" by simp
  then show ?case ..
next
  case (Seq a b)
  then obtain m1 m2 where m1: "m1 \<in> set (rmatch rt a p s)"
    and m2: "m2 \<in> set (rmatch rt b (last_opt p m1) (drop (length m1) s))" and m: "m = m1 @ m2"
    by (auto simp: in_seq_rest)
  from Seq.IH(1) [OF m1] obtain t where t: "s = m1 @ t" ..
  with m2 have "m2 \<in> set (rmatch rt b (last_opt p m1) t)" by simp
  from Seq.IH(2) [OF this] obtain u where "t = m2 @ u" ..
  with t m have "s = m @ u" by simp
  then show ?case ..
next
  case (Alt a b)
  then show ?case by auto
qed

lemma rmatch_drop: "m \<in> set (rmatch rt r p s) \<Longrightarrow> s = m @ drop (length m) s"
  by (auto dest: rmatch_prefix)

text \<open>A match depends on the text behind it and on the character before it only through
  whether they are word characters.\<close>

lemma rmatch_transfer:
  "m \<in> set (rmatch rt r p (m @ x)) \<Longrightarrow> word_at rt p = word_at rt p' \<Longrightarrow>
   word_at rt (hd_opt x) = word_at rt (hd_opt y) \<Longrightarrow> m \<in> set (rmatch rt r p' (m @ y))"
proof (induction r arbitrary: m p p' x y)
  case WordB
  then show ?case by (simp add: in_rmatch_WordB del: rmatch.simps)
next
  case (Chr c)
  then show ?case by (auto simp: in_rmatch_Chr)
next
  case (Cls cl)
  then show ?case by (auto simp: in_rmatch_Cls)
next
  case (Rep cl lo hi)
  then obtain j where j: "m = take j (m @ x)" "lo \<le> j"
    "j \<le> length (takeWhile (in_class rt cl) (m @ x))"
    "(case hi of None \<Rightarrow> True | Some h \<Rightarrow> j \<le> h)"
    by (auto simp: in_rmatch_Rep)
  have "length (takeWhile (in_class rt cl) (m @ x)) \<le> length (m @ x)"
    by (rule length_takeWhile_le)
  with j(1,3) have len: "length m = j"
    by (metis length_take min.absorb2 order_trans)
  with j(1,3) have "m = take (length m) (takeWhile (in_class rt cl) (m @ x))"
    by (metis append_eq_conv_conj take_all_iff takeWhile_eq_take take_take min.absorb1 length_takeWhile_le order_refl)
  then have "\<forall>c \<in> set m. in_class rt cl c"
    by (metis in_set_takeD set_takeWhileD)
  then have "takeWhile (in_class rt cl) (m @ y) = m @ takeWhile (in_class rt cl) y"
    by (simp add: takeWhile_append2)
  with len j show ?case
    by (auto simp: in_rmatch_Rep intro!: exI [of _ j])
next
  case (Seq a b)
  from Seq.prems(1) obtain m1 m2 where m1: "m1 \<in> set (rmatch rt a p (m @ x))"
    and m2: "m2 \<in> set (rmatch rt b (last_opt p m1) (drop (length m1) (m @ x)))"
    and m: "m = m1 @ m2"
    by (auto simp: in_seq_rest)
  have w: "word_at rt (hd_opt (m2 @ x)) = word_at rt (hd_opt (m2 @ y))"
    using Seq.prems(3) by (cases m2) auto
  from m1 m have "m1 \<in> set (rmatch rt a p (m1 @ (m2 @ x)))" by simp
  from Seq.IH(1) [OF this Seq.prems(2) w]
  have a: "m1 \<in> set (rmatch rt a p' (m @ y))" using m by simp
  have w': "word_at rt (last_opt p m1) = word_at rt (last_opt p' m1)"
    using Seq.prems(2) by (simp add: last_opt_def)
  from m2 m have "m2 \<in> set (rmatch rt b (last_opt p m1) (m2 @ x))" by simp
  from Seq.IH(2) [OF this w' Seq.prems(3)]
  have b: "m2 \<in> set (rmatch rt b (last_opt p' m1) (drop (length m1) (m @ y)))" using m by simp
  have "m \<in> set (seq_rest rt b p' (m @ y) (rmatch rt a p' (m @ y)))"
    unfolding in_seq_rest using a b m by blast
  then show ?case by simp
next
  case (Alt a b)
  then show ?case by auto
qed


lemma rmatch_chars: "m \<in> set (rmatch rt r p s) \<Longrightarrow> c \<in> set m \<Longrightarrow> rx_chars rt r c"
proof (induction r arbitrary: p s m)
  case (Rep cl lo hi)
  then obtain j where j: "m = take j s" "j \<le> length (takeWhile (in_class rt cl) s)"
    by (auto simp: in_rmatch_Rep)
  then have "m = take j (takeWhile (in_class rt cl) s)"
    by (metis takeWhile_eq_take take_take min.absorb1)
  with Rep.prems(2) show ?case
    by (metis in_set_takeD set_takeWhileD rx_chars.simps(4))
next
  case (Seq a b)
  from Seq.prems(1) obtain m1 m2 where m1: "m1 \<in> set (rmatch rt a p s)"
    and m2: "m2 \<in> set (rmatch rt b (last_opt p m1) (drop (length m1) s))" and m: "m = m1 @ m2"
    by (auto simp: in_seq_rest)
  from Seq.prems(2) m have "c \<in> set m1 \<or> c \<in> set m2" by simp
  then show ?case using Seq.IH(1) [OF m1] Seq.IH(2) [OF m2] by auto
next
  case (Alt a b)
  from Alt.prems(1) have "m \<in> set (rmatch rt a p s) \<or> m \<in> set (rmatch rt b p s)" by simp
  then show ?case using Alt.IH(1) [of m p s] Alt.IH(2) [of m p s] Alt.prems(2) by auto
qed (auto simp: in_rmatch_Chr in_rmatch_Cls split: if_splits)

lemma rmatch_min: "m \<in> set (rmatch rt r p s) \<Longrightarrow> rx_min r \<le> length m"
proof (induction r arbitrary: p s m)
  case (Rep cl lo hi)
  then obtain j where j: "m = take j s" "lo \<le> j" "j \<le> length (takeWhile (in_class rt cl) s)"
    by (auto simp: in_rmatch_Rep)
  have "length (takeWhile (in_class rt cl) s) \<le> length s"
    by (rule length_takeWhile_le)
  with j show ?case by simp
next
  case (Seq a b)
  then show ?case by (fastforce simp: in_seq_rest)
next
  case (Alt a b)
  then show ?case by (fastforce simp: min_def)
qed (auto simp: in_rmatch_Chr in_rmatch_Cls split: if_splits)

lemma rmatch_starts: "starts_wb r \<Longrightarrow> m \<in> set (rmatch rt r p s) \<Longrightarrow> word_at rt p \<noteq> word_at rt (hd_opt s)"
  by (induction r arbitrary: p s m) (auto simp: in_seq_rest split: if_splits)

lemma rmatch_ends:
  "ends_wb r \<Longrightarrow> m \<in> set (rmatch rt r p s) \<Longrightarrow>
   word_at rt (last_opt p m) \<noteq> word_at rt (hd_opt (drop (length m) s))"
proof (induction r arbitrary: p s m)
  case (Seq a b)
  from Seq.prems(2) obtain m1 m2 where m1: "m1 \<in> set (rmatch rt a p s)"
    and m2: "m2 \<in> set (rmatch rt b (last_opt p m1) (drop (length m1) s))" and m: "m = m1 @ m2"
    by (auto simp: in_seq_rest)
  from Seq.prems(1) have "ends_wb b" by simp
  from Seq.IH(2) [OF this m2] m show ?case
    by (simp add: add.commute)
qed (auto split: if_splits)

section \<open>Substitution by a bracketed token\<close>

text \<open>
  The replacement tokens start with \<^verbatim>\<open>[\<close> and end with \<^verbatim>\<open>]\<close>, which no pattern can
  consume and which are no word characters.  So a match in the text after a
  substitution lies in a stretch of the old text, and was a match there before; the
  scan replaced every match it passed.  Hence a text that had no match of \<open>q\<close> where
  \<open>r\<close> had none has no match of \<open>q\<close> at all after the matches of \<open>r\<close> are replaced.
\<close>

lemmas rx_eval = email_re_def phone_re_def ssn_re_def card_re_def digits_n_def chr_def ch_def
       rng_def in_class_def is_digit_def is_space_def is_word_def code_def lit_Cons
       rmatch.simps(6)

lemma wb_nonempty: "word_bounded rt r \<Longrightarrow> m \<in> set (rmatch rt r p s) \<Longrightarrow> m \<noteq> []"
  using rmatch_min [of m rt r p s] by (auto simp: word_bounded_def)

lemma wb_no_bracket: "word_bounded rt r \<Longrightarrow> m \<in> set (rmatch rt r p s) \<Longrightarrow> 91 \<notin> set m"
  using rmatch_chars [of m rt r p s 91] by (auto simp: word_bounded_def)

lemma wb_Nil: "word_bounded rt r \<Longrightarrow> rmatch rt r p [] = []"
proof (rule ccontr)
  assume wb: "word_bounded rt r" and "rmatch rt r p [] \<noteq> []"
  then obtain m where m: "m \<in> set (rmatch rt r p [])"
    by (cases "rmatch rt r p []") auto
  from rmatch_prefix [OF m] have "m = []" by simp
  with wb_nonempty [OF wb m] show False by simp
qed

lemma wb_candidates: "word_bounded rt r \<Longrightarrow> candidates rt r adv p s = rmatch rt r p s"
  unfolding candidates_def by (auto intro!: filter_True dest: wb_nonempty)

lemma rsub_wb_Nil: "word_bounded rt r \<Longrightarrow> rsub rt r repl adv p [] = []"
  by (simp add: rsub.simps wb_candidates wb_Nil)

lemma rsub_wb_skip:
  "word_bounded rt r \<Longrightarrow> rmatch rt r p (c # cs) = [] \<Longrightarrow>
   rsub rt r repl adv p (c # cs) = c # rsub rt r repl False (Some c) cs"
  by (simp add: rsub.simps wb_candidates)

lemma rsub_wb_hit:
  assumes "word_bounded rt r" and "rmatch rt r p (c # cs) = m # ms"
  shows "rsub rt r repl adv p (c # cs) = repl @ rsub rt r repl False (Some (last m)) (drop (length m) (c # cs))"
proof -
  from assms have "m \<noteq> []" using wb_nonempty [of rt r m p "c # cs"] by simp
  with assms show ?thesis by (simp add: rsub.simps wb_candidates)
qed

lemma not_word_brackets [simp]: "\<not> is_word rt 91" "\<not> is_word rt 93"
  by (simp_all add: is_word_def)

lemma rsub_common_prefix:
  assumes wb: "word_bounded rt r"
  shows "91 \<notin> set m \<Longrightarrow> rsub rt r (91 # tok) adv p s = m @ y \<Longrightarrow>
     \<exists>x. s = m @ x \<and>
         (hd_opt y = hd_opt x \<or> (hd_opt y = Some 91 \<and> rmatch rt r (last_opt p m) x \<noteq> []))"
proof (induction m arbitrary: p s adv y)
  case Nil
  show ?case
  proof (cases s)
    case Nil
    with Nil.prems wb show ?thesis by (simp add: rsub_wb_Nil)
  next
    case (Cons c cs)
    show ?thesis
    proof (cases "rmatch rt r p (c # cs)")
      case Nil
      with Nil.prems Cons wb show ?thesis by (auto simp: rsub_wb_skip)
    next
      case (Cons m' ms)
      with Nil.prems \<open>s = c # cs\<close> wb show ?thesis by (auto simp: rsub_wb_hit)
    qed
  qed
next
  case (Cons a m)
  show ?case
  proof (cases s)
    case Nil
    with Cons.prems wb show ?thesis by (simp add: rsub_wb_Nil)
  next
    case s: (Cons c cs)
    show ?thesis
    proof (cases "rmatch rt r p (c # cs)")
      case Nil
      with Cons.prems s wb have "a = c" and rest: "rsub rt r (91 # tok) False (Some c) cs = m @ y"
        by (auto simp: rsub_wb_skip)
      from Cons.prems(1) have "91 \<notin> set m" by simp
      from Cons.IH [OF this rest] \<open>a = c\<close> s show ?thesis by auto
    next
      case (Cons m' ms)
      with Cons.prems s wb show ?thesis by (auto simp: rsub_wb_hit)
    qed
  qed
qed

lemma rmatch_rsub_back:
  assumes wb: "word_bounded rt r" and wq: "word_bounded rt q"
    and m: "m \<in> set (rmatch rt q p (rsub rt r (91 # tok) adv p s))"
  shows "m \<in> set (rmatch rt q p s)"
proof -
  let ?out = "rsub rt r (91 # tok) adv p s"
  from rmatch_prefix [OF m] obtain y where out: "?out = m @ y" ..
  from wb_no_bracket [OF wq m] have nb: "91 \<notin> set m" .
  from rsub_common_prefix [OF wb nb out] obtain x where s: "s = m @ x"
    and hd: "hd_opt y = hd_opt x \<or> (hd_opt y = Some 91 \<and> rmatch rt r (last_opt p m) x \<noteq> [])"
    by blast
  have "word_at rt (hd_opt y) = word_at rt (hd_opt x)"
  proof (cases "hd_opt y = hd_opt x")
    case True
    then show ?thesis by simp
  next
    case False
    with hd have y: "hd_opt y = Some 91" and r: "rmatch rt r (last_opt p m) x \<noteq> []"
      by auto
    from wq have "ends_wb q" by (simp add: word_bounded_def)
    from rmatch_ends [OF this m] out y have "word_at rt (last_opt p m)" by simp
    moreover from r obtain m' where "m' \<in> set (rmatch rt r (last_opt p m) x)"
      by (cases "rmatch rt r (last_opt p m) x") auto
    with wb have "word_at rt (last_opt p m) \<noteq> word_at rt (hd_opt x)"
      by (auto simp: word_bounded_def dest: rmatch_starts)
    ultimately show ?thesis using y by simp
  qed
  with m out have "m \<in> set (rmatch rt q p (m @ x))"
    by (auto intro: rmatch_transfer)
  with s show ?thesis by simp
qed

lemma covers_refl: "covers rt r r p s"
  by (induction s arbitrary: p) auto

lemma covers_clean: "\<not> rsearch rt q p s \<Longrightarrow> covers rt r q p s"
  by (induction s arbitrary: p) auto

lemma covers_drop: "covers rt r q p (m @ t) \<Longrightarrow> covers rt r q (last_opt p m) t"
  by (induction m arbitrary: p) auto

lemma rsub_no_match: "\<not> rsearch rt r p s \<Longrightarrow> rsub rt r repl adv p s = s"
  by (induction s arbitrary: p adv) (auto simp: rsub.simps candidates_def)

lemma rsearch_head_only:
  assumes wq: "word_bounded rt q"
    and eq: "rmatch rt q p' s \<noteq> [] \<Longrightarrow> rmatch rt q p s \<noteq> []"
    and no: "\<not> rsearch rt q p s"
  shows "\<not> rsearch rt q p' s"
  using assms by (cases s) (auto simp: wb_Nil)

lemma rsub_leaves_no_match:
  assumes wb: "word_bounded rt r" and wq: "word_bounded rt q"
    and tok: "\<And>p z. rsearch rt q p ((91 # tok) @ z) = rsearch rt q (Some 93) z"
  shows "covers rt r q p s \<Longrightarrow> \<not> rsearch rt q p (rsub rt r (91 # tok) adv p s)"
proof (induction s arbitrary: p adv rule: length_induct)
  case (1 s)
  show ?case
  proof (cases s)
    case Nil
    with wb wq show ?thesis by (simp add: rsub_wb_Nil wb_Nil)
  next
    case s: (Cons c cs)
    show ?thesis
    proof (cases "rmatch rt r p (c # cs)")
      case Nil
      from "1.prems" s Nil have here: "rmatch rt q p (c # cs) = []" and rest: "covers rt r q (Some c) cs"
        by auto
      let ?out' = "rsub rt r (91 # tok) False (Some c) cs"
      from wb Nil s have out: "rsub rt r (91 # tok) adv p s = c # ?out'"
        by (simp add: rsub_wb_skip)
      from "1.IH" rest s have tail: "\<not> rsearch rt q (Some c) ?out'" by simp
      have "rmatch rt q p (rsub rt r (91 # tok) adv p s) = []"
      proof (rule ccontr)
        assume "rmatch rt q p (rsub rt r (91 # tok) adv p s) \<noteq> []"
        then obtain m where "m \<in> set (rmatch rt q p (rsub rt r (91 # tok) adv p s))"
          by (cases "rmatch rt q p (rsub rt r (91 # tok) adv p s)") auto
        from rmatch_rsub_back [OF wb wq this] here s show False by simp
      qed
      with out tail show ?thesis by simp
    next
      case (Cons mr ms)
      then have mr: "mr \<in> set (rmatch rt r p (c # cs))" by simp
      from wb_nonempty [OF wb mr] have ne: "mr \<noteq> []" .
      let ?rest = "drop (length mr) (c # cs)"
      let ?out' = "rsub rt r (91 # tok) False (Some (last mr)) ?rest"
      from rmatch_drop [OF mr] have split: "c # cs = mr @ ?rest" .
      from wb Cons s have out: "rsub rt r (91 # tok) adv p s = (91 # tok) @ ?out'"
        by (simp add: rsub_wb_hit)
      from ne have lo: "last_opt p mr = Some (last mr)" by (simp add: last_opt_def)
      from "1.prems" s split have "covers rt r q p (mr @ ?rest)" by simp
      from covers_drop [OF this] lo have cov: "covers rt r q (Some (last mr)) ?rest" by simp
      from ne have "length ?rest < length s" using s by (cases mr) auto
      with "1.IH" cov have tail: "\<not> rsearch rt q (Some (last mr)) ?out'" by blast
      have "\<not> rsearch rt q (Some 93) ?out'"
      proof (rule rsearch_head_only [OF wq _ tail])
        assume "rmatch rt q (Some 93) ?out' \<noteq> []"
        then obtain m where m: "m \<in> set (rmatch rt q (Some 93) ?out')"
          by (cases "rmatch rt q (Some 93) ?out'") auto
        from rmatch_prefix [OF m] obtain y where y: "?out' = m @ y" ..
        from wb_nonempty [OF wq m] obtain d m' where d: "m = d # m'" by (cases m) auto
        from wb_no_bracket [OF wq m] d have "d \<noteq> 91" by auto
        from wq have "starts_wb q" by (simp add: word_bounded_def)
        from rmatch_starts [OF this m] y d have wd: "is_word rt d" by simp
        from y d have "?out' = [] @ (d # m' @ y)" by simp
        from rsub_common_prefix [OF wb _ this] \<open>d \<noteq> 91\<close>
        have "hd_opt ?rest = Some d" by auto
        moreover from wb have "ends_wb r" by (simp add: word_bounded_def)
        from rmatch_ends [OF this mr] lo
        have "word_at rt (Some (last mr)) \<noteq> word_at rt (hd_opt ?rest)" by simp
        ultimately have "word_at rt (Some 93) = word_at rt (Some (last mr))"
          using wd by simp
        with m y have "m \<in> set (rmatch rt q (Some (last mr)) ?out')"
          using rmatch_transfer [of m rt q "Some 93" y "Some (last mr)" y] by simp
        then show "rmatch rt q (Some (last mr)) ?out' \<noteq> []" by auto
      qed
      with out tok show ?thesis by simp
    qed
  qed
qed

section \<open>Anonymization\<close>

lemma word_bounded_patterns:
  "word_bounded rt email_re" "word_bounded rt phone_re" "word_bounded rt ssn_re" "word_bounded rt card_re"
  by (simp_all add: word_bounded_def rx_eval)

lemma tok_email:
  "rsearch rt email_re p ((91 # lit ''EMAIL]'') @ z) = rsearch rt email_re (Some 93) z"
  "rsearch rt email_re p ((91 # lit ''PHONE]'') @ z) = rsearch rt email_re (Some 93) z"
  "rsearch rt email_re p ((91 # lit ''SSN]'') @ z) = rsearch rt email_re (Some 93) z"
  "rsearch rt email_re p ((91 # lit ''CARD]'') @ z) = rsearch rt email_re (Some 93) z"
  by (simp_all add: rx_eval)

lemma tok_phone:
  "rsearch rt phone_re p ((91 # lit ''PHONE]'') @ z) = rsearch rt phone_re (Some 93) z"
  "rsearch rt phone_re p ((91 # lit ''SSN]'') @ z) = rsearch rt phone_re (Some 93) z"
  "rsearch rt phone_re p ((91 # lit ''CARD]'') @ z) = rsearch rt phone_re (Some 93) z"
  by (simp_all add: rx_eval)

lemma tok_ssn:
  "rsearch rt ssn_re p ((91 # lit ''SSN]'') @ z) = rsearch rt ssn_re (Some 93) z"
  "rsearch rt ssn_re p ((91 # lit ''CARD]'') @ z) = rsearch rt ssn_re (Some 93) z"
  by (simp_all add: rx_eval)

lemma tok_card:
  "rsearch rt card_re p ((91 # lit ''CARD]'') @ z) = rsearch rt card_re (Some 93) z"
  by (simp_all add: rx_eval)

lemma anonymize_value_clean:
  "\<not> re_search rt email_re (anonymize_value rt v)" "\<not> re_search rt phone_re (anonymize_value rt v)"
  "\<not> re_search rt ssn_re (anonymize_value rt v)" "\<not> re_search rt card_re (anonymize_value rt v)"
proof -
  note wb = word_bounded_patterns
  let ?s1 = "rsub rt email_re (91 # lit ''EMAIL]'') False None v"
  let ?s2 = "rsub rt phone_re (91 # lit ''PHONE]'') False None ?s1"
  let ?s3 = "rsub rt ssn_re (91 # lit ''SSN]'') False None ?s2"
  let ?s4 = "rsub rt card_re (91 # lit ''CARD]'') False None ?s3"
  have e1: "\<not> rsearch rt email_re None ?s1"
    by (rule rsub_leaves_no_match [OF wb(1) wb(1) tok_email(1) covers_refl])
  have e2: "\<not> rsearch rt email_re None ?s2"
    by (rule rsub_leaves_no_match [OF wb(2) wb(1) tok_email(2) covers_clean [OF e1]])
  have p2: "\<not> rsearch rt phone_re None ?s2"
    by (rule rsub_leaves_no_match [OF wb(2) wb(2) tok_phone(1) covers_refl])
  have e3: "\<not> rsearch rt email_re None ?s3"
    by (rule rsub_leaves_no_match [OF wb(3) wb(1) tok_email(3) covers_clean [OF e2]])
  have p3: "\<not> rsearch rt phone_re None ?s3"
    by (rule rsub_leaves_no_match [OF wb(3) wb(2) tok_phone(2) covers_clean [OF p2]])
  have s3: "\<not> rsearch rt ssn_re None ?s3"
    by (rule rsub_leaves_no_match [OF wb(3) wb(3) tok_ssn(1) covers_refl])
  have e4: "\<not> rsearch rt email_re None ?s4"
    by (rule rsub_leaves_no_match [OF wb(4) wb(1) tok_email(4) covers_clean [OF e3]])
  have p4: "\<not> rsearch rt phone_re None ?s4"
    by (rule rsub_leaves_no_match [OF wb(4) wb(2) tok_phone(3) covers_clean [OF p3]])
  have s4: "\<not> rsearch rt ssn_re None ?s4"
    by (rule rsub_leaves_no_match [OF wb(4) wb(3) tok_ssn(2) covers_clean [OF s3]])
  have c4: "\<not> rsearch rt card_re None ?s4"
    by (rule rsub_leaves_no_match [OF wb(4) wb(4) tok_card(1) covers_refl])
  have "anonymize_value rt v = ?s4"
    by (simp add: anonymize_value_def re_sub_def lit_Cons)
  with e4 p4 s4 c4
  show "\<not> re_search rt email_re (anonymize_value rt v)" "\<not> re_search rt phone_re (anonymize_value rt v)"
    "\<not> re_search rt ssn_re (anonymize_value rt v)" "\<not> re_search rt card_re (anonymize_value rt v)"
    by (simp_all add: re_search_def)
qed

lemma re_sub_no_match: "\<not> re_search rt r s \<Longrightarrow> re_sub rt r repl s = s"
  by (simp add: re_search_def re_sub_def rsub_no_match)

lemma anonymize_value_idem: "anonymize_value rt (anonymize_value rt v) = anonymize_value rt v"
  using anonymize_value_clean [of rt v]
  by (simp add: anonymize_value_def [of rt "anonymize_value rt v"] re_sub_no_match)

lemma update_behind:
  "k \<notin> fst ` set xs \<Longrightarrow> AList.update k v (xs @ (k, w) # ys) = xs @ (k, v) # ys"
  by (induction xs) auto

lemma anonymize_loop_map:
  "distinct (map fst (seen @ todo)) \<Longrightarrow>
   anonymize_loop rt (seen @ todo) todo
     = seen @ map (\<lambda>kv. (fst kv, case snd kv of PStr t \<Rightarrow> PStr (anonymize_value rt t) | v \<Rightarrow> v)) todo"
proof (induction todo arbitrary: seen)
  case Nil
  then show ?case by simp
next
  case (Cons kv todo)
  obtain k v where kv: "kv = (k, v)" by (cases kv)
  from Cons.prems kv have k: "k \<notin> fst ` set seen" and d: "\<And>w. distinct (map fst ((seen @ [(k, w)]) @ todo))"
    by auto
  show ?case
  proof (cases v)
    case (PStr t)
    from Cons.IH [OF d [of "PStr (anonymize_value rt t)"]] k kv PStr show ?thesis
      by (simp add: update_behind)
  qed (use Cons.IH [OF d [of v]] kv in simp_all)
qed

lemma anonymized_copy_map:
  "distinct (map fst data) \<Longrightarrow>
   anonymized_copy rt data
     = map (\<lambda>kv. (fst kv, case snd kv of PStr t \<Rightarrow> PStr (anonymize_value rt t) | v \<Rightarrow> v)) data"
  using anonymize_loop_map [of "[]" data rt] by (simp add: anonymized_copy_def)

lemma anonymize_items_update:
  "a' < length h \<Longrightarrow> anonymize_items rt h a' items = h[a' := anonymize_loop rt (h ! a') items]"
  by (induction items arbitrary: h) (auto split: pyval.splits)

lemma anonymize_data_store_eq:
  assumes "a < length h"
  shows "anonymize_data_store rt h a conditions
           = (anonymize_data rt (h ! a) conditions, h @ [anonymized_copy rt (h ! a)])"
  using assms
  by (simp add: anonymize_data_store_def anonymize_data_def Let_def anonymize_items_update
        anonymized_copy_def nth_append)

text \<open>
  C7, as amended.  For a record with distinct keys held in a store, the anonymize
  action allocates one new object, the copy, and leaves every object of the store,
  the record included, as it was.  In the copy every string-valued field holds its
  text with the email, phone, SSN and card patterns replaced (in this order) by
  \<^verbatim>\<open>[EMAIL]\<close>, \<^verbatim>\<open>[PHONE]\<close>, \<^verbatim>\<open>[SSN]\<close>, \<^verbatim>\<open>[CARD]\<close>, after which none of the four patterns
  is found in it; every other field is as in the record.  The result is a success and
  its metadata reports under \<^verbatim>\<open>original_keys\<close> all keys of the record, whether or not
  their fields were changed, and \<^verbatim>\<open>anonymized\<close> as true.
\<close>

theorem anonymize_copy_and_report:
  assumes "a < length h" and "distinct (map fst (h ! a))"
  shows "\<exists>res copy.
           anonymize_data_store rt h a conditions = (res, h @ [copy]) \<and>
           copy = map (\<lambda>kv. (fst kv, case snd kv of PStr t \<Rightarrow> PStr (anonymize_value rt t) | v \<Rightarrow> v))
                    (h ! a) \<and>
           list_all (\<lambda>kv. case snd kv of PStr t \<Rightarrow> pii_kinds rt t = [] | v \<Rightarrow> True) copy \<and>
           res = anonymize_data rt (h ! a) conditions \<and>
           ar_success res \<and>
           ar_metadata res = Some [(lit ''original_keys'', PList (map (\<lambda>kv. PStr (fst kv)) (h ! a))),
                                   (lit ''anonymized'', PBool True)]"
proof -
  let ?f = "\<lambda>kv. (fst kv, case snd kv of PStr t \<Rightarrow> PStr (anonymize_value rt t) | v \<Rightarrow> v)"
  have clean: "list_all (\<lambda>kv. case snd kv of PStr t \<Rightarrow> pii_kinds rt t = [] | v \<Rightarrow> True)
                 (map ?f (h ! a))"
    by (auto simp: list_all_iff pii_kinds_def anonymize_value_clean split: pyval.splits)
  from assms(2) have "anonymized_copy rt (h ! a) = map ?f (h ! a)"
    by (rule anonymized_copy_map)
  with anonymize_data_store_eq [OF assms(1), of rt conditions] clean show ?thesis
    by (simp add: anonymize_data_def)
qed

theorem anonymize_copy_and_report_witness:
  "0 < length [[(lit ''email'', PStr (lit ''a@b.cc'')), (lit ''age'', PInt 30)]]
   \<and> distinct (map fst ([[(lit ''email'', PStr (lit ''a@b.cc'')), (lit ''age'', PInt 30)]] ! 0))
   \<and> (\<exists>res copy.
         anonymize_data_store sample_runtime
             [[(lit ''email'', PStr (lit ''a@b.cc'')), (lit ''age'', PInt 30)]] 0 []
           = (res, [[(lit ''email'', PStr (lit ''a@b.cc'')), (lit ''age'', PInt 30)]] @ [copy]) \<and>
         copy = [(lit ''email'', PStr (anonymize_value sample_runtime (lit ''a@b.cc''))),
                 (lit ''age'', PInt 30)] \<and>
         ar_success res \<and>
         ar_metadata res = Some [(lit ''original_keys'', PList [PStr (lit ''email''), PStr (lit ''age'')]),
                                 (lit ''anonymized'', PBool True)])"
  using anonymize_copy_and_report
    [of 0 "[[(lit ''email'', PStr (lit ''a@b.cc'')), (lit ''age'', PInt 30)]]" sample_runtime "[]"]
  by simp

lemma anonymize_value_example: "anonymize_value rt (lit ''a@b.cc'') = lit ''[EMAIL]''"
  by (simp add: anonymize_value_def re_sub_def rsub.simps candidates_def rx_eval last_opt_def)

text \<open>
  The word boundary follows the Unicode database.  With the Latin-1 letters of the
  sample runtime, a phone number in parentheses behind the letter e with an acute accent
  (233) is replaced, since a word character stands before the parenthesis; a social
  security number behind N and the masculine ordinal indicator (186, a letter) is
  not, since no word boundary stands before its first digit.
\<close>

lemma anonymize_value_latin1:
  "anonymize_value sample_runtime (233 # lit ''(555) 123-4567'') = 233 # lit ''[PHONE]''"
  "anonymize_value sample_runtime (lit ''N'' @ 186 # lit ''123-45-6789'')
     = lit ''N'' @ 186 # lit ''123-45-6789''"
  by (simp_all add: anonymize_value_def re_sub_def rsub.simps candidates_def rx_eval last_opt_def
        sample_runtime_def)

text \<open>The claim as stated fails: for a record with an email and an age, only the
  email is a string and changes in the copy, and the metadata lists both keys.\<close>

theorem anonymize_reports_all_keys:
  "anonymize_data_store sample_runtime
       [[(lit ''email'', PStr (lit ''a@b.cc'')), (lit ''age'', PInt 30)]] 0 []
     = (\<lparr>ar_success = True, ar_message = lit ''Data anonymized successfully'',
         ar_metadata = Some [(lit ''original_keys'', PList [PStr (lit ''email''), PStr (lit ''age'')]),
                             (lit ''anonymized'', PBool True)]\<rparr>,
        [[(lit ''email'', PStr (lit ''a@b.cc'')), (lit ''age'', PInt 30)],
         [(lit ''email'', PStr (lit ''[EMAIL]'')), (lit ''age'', PInt 30)]])
   \<and> map fst (filter (\<lambda>kv. case snd kv of PStr t \<Rightarrow> True | v \<Rightarrow> False)
                [(lit ''email'', PStr (lit ''a@b.cc'')), (lit ''age'', PInt 30)]) = [lit ''email'']"
  by (simp add: anonymize_data_store_def Let_def anonymize_value_example)

text \<open>
  C8.  On a record with distinct keys the substitution is idempotent: the copy that
  the loop of the anonymize action produces from its own output is that output.
  (On one string: \<open>anonymize_value_idem\<close>.)
\<close>

theorem anonymize_idempotent:
  assumes "distinct (map fst data)"
  shows "anonymized_copy rt (anonymized_copy rt data) = anonymized_copy rt data"
proof -
  let ?f = "\<lambda>kv. (fst kv, case snd kv of PStr t \<Rightarrow> PStr (anonymize_value rt t) | v \<Rightarrow> v)"
  from assms have c: "anonymized_copy rt data = map ?f data"
    by (rule anonymized_copy_map)
  have "map fst (map ?f data) = map fst data" by (simp add: comp_def)
  with assms have "distinct (map fst (map ?f data))" by (simp only:)
  then have "anonymized_copy rt (map ?f data) = map ?f (map ?f data)"
    by (rule anonymized_copy_map)
  also have "\<dots> = map ?f data"
    by (auto simp: anonymize_value_idem split: pyval.splits)
  finally show ?thesis using c by simp
qed

theorem anonymize_idempotent_witness:
  "distinct (map fst [(lit ''email'', PStr (lit ''a@b.cc'')), (lit ''age'', PInt 30)])
   \<and> anonymized_copy sample_runtime
         (anonymized_copy sample_runtime [(lit ''email'', PStr (lit ''a@b.cc'')), (lit ''age'', PInt 30)])
       = anonymized_copy sample_runtime [(lit ''email'', PStr (lit ''a@b.cc'')), (lit ''age'', PInt 30)]"
  using anonymize_idempotent
    [of "[(lit ''email'', PStr (lit ''a@b.cc'')), (lit ''age'', PInt 30)]" sample_runtime]
  by simp

end
